theory Spec2Isabelle
  imports Complex_Main "HOL-Library.Word" "HOL-Library.Product_Lexorder"
begin

unbundle bit_operations_syntax

section \<open>Feature decoder: the scale-to-index mapping\<close>

text \<open>
  The embedding follows the release build: \<^verbatim>\<open>ASSERT\<close> (the debug-only check of
  base/assert.hpp) expands to nothing, \<^verbatim>\<open>CHECK\<close> stays and aborts. An abort and a
  read or write outside a vector are values of \<open>error\<close>.
\<close>

datatype error = CheckFailed | OutOfRange

type_synonym u8 = "8 word"
type_synonym u32 = "32 word"

text \<open>
  \<^verbatim>\<open>SharedLoadInfo\<close> is declared outside the sources at hand; the decoder only calls the
  accessors below, which are taken as they come. \<open>'c\<close> is the type of the geometry
  coding params; a per-scale reader is the byte stream it delivers.
\<close>

record 'c SharedLoadInfo =
  GetScalesCount :: int
  GetLastScale :: int
  GetScale :: "int \<Rightarrow> int"
  GetDefGeometryCodingParams :: 'c
  GetGeometryCodingParams :: "int \<Rightarrow> 'c"
  GetGeometryReader :: "int \<Rightarrow> u8 list"
  GetTrianglesReader :: "int \<Rightarrow> u8 list"

text \<open>The sentinels, as the comment above \<^verbatim>\<open>GetScaleIndex\<close> gives them.\<close>

definition BEST_GEOMETRY :: int where
  "BEST_GEOMETRY = -1"

definition WORST_GEOMETRY :: int where
  "WORST_GEOMETRY = -2"

definition kInvalidOffset :: u32 where
  "kInvalidOffset = 0xFFFFFFFF"

text \<open>\<^verbatim>\<open>GetScaleIndex(loadInfo, scale)\<close>: the \<^verbatim>\<open>for\<close> loop of the default case.\<close>

function scale_loop :: "'c SharedLoadInfo \<Rightarrow> int \<Rightarrow> int \<Rightarrow> int \<Rightarrow> int" where
  "scale_loop li scale count i =
     (if i < count
      then (if scale \<le> GetScale li i then i else scale_loop li scale count (i + 1))
      else -1)"
  by pat_completeness auto
termination
  by (relation "measure (\<lambda>(li, scale, count, i). nat (count - i))") auto

declare scale_loop.simps [simp del]

definition GetScaleIndex :: "'c SharedLoadInfo \<Rightarrow> int \<Rightarrow> int" where
  "GetScaleIndex li scale0 =
     (let count = GetScalesCount li;
          lastScale = GetLastScale li;
          scale = (if scale0 > lastScale then lastScale else scale0)
      in if scale = WORST_GEOMETRY then 0
         else if scale = BEST_GEOMETRY then count - 1
         else scale_loop li scale count 0)"

text \<open>
  \<^verbatim>\<open>GetScaleIndex(loadInfo, scale, offsets)\<close>. The two \<^verbatim>\<open>while\<close> loops of the sentinel
  cases and the \<^verbatim>\<open>for\<close> loop of the default case; \<^verbatim>\<open>offsets[i]\<close> of the default case
  is read without a bound check in the source, so an index past the vector is
  \<open>OutOfRange\<close>.
\<close>

function best_loop :: "u32 list \<Rightarrow> int \<Rightarrow> int" where
  "best_loop offsets ind =
     (if ind \<ge> 0 \<and> offsets ! nat ind = kInvalidOffset
      then best_loop offsets (ind - 1) else ind)"
  by pat_completeness auto
termination
  by (relation "measure (\<lambda>(offsets, ind). nat (ind + 1))") auto

declare best_loop.simps [simp del]

function worst_loop :: "u32 list \<Rightarrow> int \<Rightarrow> int" where
  "worst_loop offsets ind =
     (if ind < int (length offsets) \<and> offsets ! nat ind = kInvalidOffset
      then worst_loop offsets (ind + 1) else ind)"
  by pat_completeness auto
termination
  by (relation "measure (\<lambda>(offsets, ind). nat (int (length offsets) - ind))") auto

declare worst_loop.simps [simp del]

function scale_loop_offsets ::
  "'c SharedLoadInfo \<Rightarrow> int \<Rightarrow> u32 list \<Rightarrow> int \<Rightarrow> int \<Rightarrow> error + int" where
  "scale_loop_offsets li scale offsets n i =
     (if i < n
      then (if scale \<le> GetScale li i
            then (if nat i < length offsets
                  then Inr (if offsets ! nat i \<noteq> kInvalidOffset then i else -1)
                  else Inl OutOfRange)
            else scale_loop_offsets li scale offsets n (i + 1))
      else Inr (-1))"
  by pat_completeness auto
termination
  by (relation "measure (\<lambda>(li, scale, offsets, n, i). nat (n - i))") auto

declare scale_loop_offsets.simps [simp del]

definition GetScaleIndex_offsets ::
  "'c SharedLoadInfo \<Rightarrow> int \<Rightarrow> u32 list \<Rightarrow> error + int" where
  "GetScaleIndex_offsets li scale0 offsets =
     (let count = int (length offsets);
          lastScale = GetLastScale li;
          scale = (if scale0 > lastScale then lastScale else scale0)
      in if scale = BEST_GEOMETRY
         then (let ind = best_loop offsets (count - 1)
               in Inr (if ind \<ge> 0 \<and> ind < count then ind else -1))
         else if scale = WORST_GEOMETRY
         then (let ind = worst_loop offsets 0
               in Inr (if ind \<ge> 0 \<and> ind < count then ind else -1))
         else scale_loop_offsets li scale offsets (GetScalesCount li) 0)"

text \<open>
  The mapping as the specification words it, for comparison with the code: clamp the
  scale to the last scale, then the smallest index whose scale is not below it and whose
  offset is present; \<open>-1\<close> stands for "not found".
\<close>

definition spec_scale_index :: "'c SharedLoadInfo \<Rightarrow> int \<Rightarrow> u32 list \<Rightarrow> int" where
  "spec_scale_index li scale0 offsets =
     (let scale = min scale0 (GetLastScale li)
      in case find (\<lambda>i. scale \<le> GetScale li (int i) \<and> offsets ! i \<noteq> kInvalidOffset)
                   [0..<length offsets] of
           None \<Rightarrow> -1
         | Some i \<Rightarrow> int i)"

text \<open>
  A container with the four scales 10, 12, 14, 17, whose coding params are a base point
  and whose geometry readers deliver two short streams; and an offset table for it.
\<close>

definition ex_li :: "int SharedLoadInfo" where
  "ex_li = \<lparr>GetScalesCount = 4, GetLastScale = 17,
            GetScale = (\<lambda>i. [10, 12, 14, 17] ! nat i),
            GetDefGeometryCodingParams = 0, GetGeometryCodingParams = (\<lambda>_. 0),
            GetGeometryReader = (\<lambda>ind. if ind = 1 then [1, 2, 3] else [9, 9, 1, 2, 3, 4, 5]),
            GetTrianglesReader = (\<lambda>_. [])\<rparr>"

definition ex_offsets :: "u32 list" where
  "ex_offsets = [kInvalidOffset, 5, 9, kInvalidOffset]"

text \<open>A container with the two scales 10 and 17 only, otherwise as the one above.\<close>

definition ex_li2 :: "int SharedLoadInfo" where
  "ex_li2 = \<lparr>GetScalesCount = 2, GetLastScale = 17,
             GetScale = (\<lambda>i. [10, 17] ! nat i),
             GetDefGeometryCodingParams = 0, GetGeometryCodingParams = (\<lambda>_. 0),
             GetGeometryReader = (\<lambda>ind. if ind = 1 then [1, 2, 3] else [9, 9, 1, 2, 3, 4, 5]),
             GetTrianglesReader = (\<lambda>_. [])\<rparr>"
section \<open>Feature decoder: the staged parser\<close>

text \<open>
  What the decoder calls and the sources at hand do not hold: the classificator, the
  varint and geometry decoders of coding/ and \<^verbatim>\<open>serial::\<close>, \<^verbatim>\<open>FeatureParams::Read\<close>,
  the rectangle operations and the header constants of feature_data.hpp. They are taken
  as they come, as the fields of \<open>Extern\<close>. A decoder reads the feature's buffer from a
  position and returns the position it stops at. \<open>'p\<close> is \<^verbatim>\<open>m2::PointD\<close>, \<open>'r\<close> is
  \<^verbatim>\<open>m2::RectD\<close>, \<open>'c\<close> the geometry coding params and \<open>'q\<close> is \<^verbatim>\<open>FeatureParams\<close>.
\<close>

record ('p, 'r, 'c, 'q) Extern =
  HEADER_MASK_GEOMTYPE :: u8
  HEADER_MASK_HAS_LAYER :: u8
  HeaderGeomType_Line :: u8
  HeaderGeomType_Area :: u8
  GetTypesCount :: "u8 \<Rightarrow> nat"
  GetTypeForIndex :: "u32 \<Rightarrow> u32"
  GetStubType :: u32
  ReadVarUint :: "u8 list \<Rightarrow> nat \<Rightarrow> u32 \<times> nat"
  params_Read :: "'q \<Rightarrow> u8 list \<Rightarrow> nat \<Rightarrow> u8 \<Rightarrow> 'q \<times> nat"
  params_layer :: "'q \<Rightarrow> u8"
  LoadPoint :: "u8 list \<Rightarrow> nat \<Rightarrow> 'c \<Rightarrow> 'p \<times> nat"
  LoadInnerPath :: "u8 list \<Rightarrow> nat \<Rightarrow> nat \<Rightarrow> 'c \<Rightarrow> 'p list \<times> nat"
  LoadInnerTriangles :: "u8 list \<Rightarrow> nat \<Rightarrow> nat \<Rightarrow> 'c \<Rightarrow> 'p list \<times> nat"
  LoadOuterPath :: "u8 list \<Rightarrow> nat \<Rightarrow> 'c \<Rightarrow> 'p list \<times> nat"
  LoadOuterTriangles :: "u8 list \<Rightarrow> nat \<Rightarrow> 'c \<Rightarrow> 'p list \<times> nat"
  SetBasePoint :: "'c \<Rightarrow> 'p \<Rightarrow> 'c"
  RectD_empty :: 'r
  RectD_Add :: "'r \<Rightarrow> 'p \<Rightarrow> 'r"
  CalcRect :: "'p list \<Rightarrow> 'r \<Rightarrow> 'r"

datatype GeomType = GeomType_Point | GeomType_Line | GeomType_Area

text \<open>
  \<^verbatim>\<open>FeatureType\<close>: the members the parse stages read and write. The members of the
  nested structs \<^verbatim>\<open>m_parsed\<close>, \<^verbatim>\<open>m_offsets\<close> and \<^verbatim>\<open>m_innerStats\<close> carry the struct's name
  as a prefix. \<^verbatim>\<open>m_loadInfo\<close> is a pointer: \<open>None\<close> is the null pointer of a feature
  built from a \<^verbatim>\<open>MapObject\<close>. The metadata members and their two stages are left out.
\<close>

record ('p, 'r, 'c, 'q) FeatureType =
  m_loadInfo :: "'c SharedLoadInfo option"
  m_data :: "u8 list"
  m_header :: u8
  m_types :: "u32 list"
  m_params :: 'q
  m_center :: 'p
  m_limitRect :: 'r
  m_points :: "'p list"
  m_triangles :: "'p list"
  m_ptsSimpMask :: u32
  m_parsed_m_types :: bool
  m_parsed_m_common :: bool
  m_parsed_m_header2 :: bool
  m_parsed_m_points :: bool
  m_parsed_m_triangles :: bool
  m_parsed_m_metadata :: bool
  m_parsed_m_metaIds :: bool
  m_offsets_m_common :: u32
  m_offsets_m_header2 :: u32
  m_offsets_m_pts :: "u32 list"
  m_offsets_m_trg :: "u32 list"
  m_innerStats_m_points :: u32
  m_innerStats_m_strips :: u32
  m_innerStats_m_size :: u32

text \<open>\<^verbatim>\<open>CalcOffset\<close>: the distance from the start of the buffer, as a \<^verbatim>\<open>uint32_t\<close>.\<close>

definition CalcOffset :: "nat \<Rightarrow> u32" where
  "CalcOffset pos = of_nat pos"

definition Header :: "u8 list \<Rightarrow> error + u8" where
  "Header data = (case data of [] \<Rightarrow> Inl CheckFailed | h # _ \<Rightarrow> Inr h)"

text \<open>
  \<^verbatim>\<open>ReadOffsets\<close>: \<^verbatim>\<open>offsets.resize(count, kInvalidOffset)\<close>, then one varint per set bit
  of the mask. \<^verbatim>\<open>offsets[ind]\<close> is written without a bound check.
\<close>

definition resize :: "nat \<Rightarrow> 'a \<Rightarrow> 'a list \<Rightarrow> 'a list" where
  "resize n v xs = take n xs @ replicate (n - length xs) v"

function ReadOffsets_loop ::
  "('p, 'r, 'c, 'q) Extern \<Rightarrow> u8 list \<Rightarrow> u8 \<Rightarrow> nat \<Rightarrow> nat \<Rightarrow> u32 list \<Rightarrow>
   error + (u32 list \<times> nat)" where
  "ReadOffsets_loop ext data msk ind pos offsets =
     (if msk > 0
      then (if msk AND 0x01 \<noteq> 0
            then (if ind < length offsets
                  then ReadOffsets_loop ext data (drop_bit 1 msk) (ind + 1)
                         (snd (ReadVarUint ext data pos))
                         (offsets[ind := fst (ReadVarUint ext data pos)])
                  else Inl OutOfRange)
            else ReadOffsets_loop ext data (drop_bit 1 msk) (ind + 1) pos offsets)
      else Inr (offsets, pos))"
  by pat_completeness auto
termination
proof (relation "measure (\<lambda>(ext, data, msk, ind, pos, offsets). unat msk)")
  show "wf (measure (\<lambda>(ext :: ('p, 'r, 'c, 'q) Extern, data :: u8 list, msk :: u8,
                        ind :: nat, pos :: nat, offsets :: u32 list). unat msk))"
    by simp
next
  fix ext :: "('p, 'r, 'c, 'q) Extern" and data :: "u8 list" and msk :: u8
    and ind pos :: nat and offsets :: "u32 list"
  assume "0 < msk"
  then have "unat msk \<noteq> 0" by (simp add: word_greater_zero_iff unat_eq_0)
  then have "unat msk div 2 < unat msk" by simp
  moreover have "unat (drop_bit 1 msk) = unat msk div 2"
    by (simp add: drop_bit_eq_div unat_div)
  ultimately have lt: "unat (drop_bit 1 msk) < unat msk"
    by simp
  from lt show "((ext, data, drop_bit 1 msk, ind + 1, snd (ReadVarUint ext data pos),
                  offsets[ind := fst (ReadVarUint ext data pos)]),
                 ext, data, msk, ind, pos, offsets)
                \<in> measure (\<lambda>(ext, data, msk, ind, pos, offsets). unat msk)"
    by simp
  from lt show "((ext, data, drop_bit 1 msk, ind + 1, pos, offsets),
                 ext, data, msk, ind, pos, offsets)
                \<in> measure (\<lambda>(ext, data, msk, ind, pos, offsets). unat msk)"
    by simp
qed

declare ReadOffsets_loop.simps [simp del]

definition ReadOffsets ::
  "('p, 'r, 'c, 'q) Extern \<Rightarrow> 'c SharedLoadInfo \<Rightarrow> u8 list \<Rightarrow> nat \<Rightarrow> u8 \<Rightarrow> u32 list \<Rightarrow>
   error + (u32 list \<times> nat)" where
  "ReadOffsets ext loadInfo data pos msk offsets =
     ReadOffsets_loop ext data msk 0 pos
       (resize (nat (GetScalesCount loadInfo)) kInvalidOffset offsets)"

text \<open>
  \<^verbatim>\<open>BitSource\<close>: the pointer is a position in the buffer, read without a bound check in
  the source. \<^verbatim>\<open>Read(count)\<close> returns the bits and the moved source.
\<close>

record BitSource =
  m_ptr :: nat
  m_pos :: u8

definition BitSource_Read :: "u8 list \<Rightarrow> BitSource \<Rightarrow> u8 \<Rightarrow> error + (u8 \<times> BitSource)" where
  "BitSource_Read data b count =
     (if m_ptr b < length data
      then (let v = drop_bit (unat (m_pos b)) (data ! m_ptr b) AND (push_bit (unat count) 1 - 1);
                pos = m_pos b + count
            in Inr (v, if pos \<ge> 8 then \<lparr>m_ptr = m_ptr b + 1, m_pos = 0\<rparr>
                       else b\<lparr>m_pos := pos\<rparr>))
      else Inl OutOfRange)"

definition RoundPtr :: "BitSource \<Rightarrow> nat" where
  "RoundPtr b = (if m_pos b > 0 then m_ptr b + 1 else m_ptr b)"

definition ReadByte :: "u8 list \<Rightarrow> nat \<Rightarrow> error + (u8 \<times> nat)" where
  "ReadByte data pos = (if pos < length data then Inr (data ! pos, pos + 1) else Inl OutOfRange)"

definition GetGeomType :: "('p, 'r, 'c, 'q) Extern \<Rightarrow> ('p, 'r, 'c, 'q) FeatureType \<Rightarrow> GeomType" where
  "GetGeomType ext f =
     (let headerGeomType = m_header f AND HEADER_MASK_GEOMTYPE ext
      in if headerGeomType = HeaderGeomType_Line ext then GeomType_Line
         else if headerGeomType = HeaderGeomType_Area ext then GeomType_Area
         else GeomType_Point)"

text \<open>
  \<^verbatim>\<open>ParseTypes\<close>. \<^verbatim>\<open>m_types\<close> is a \<^verbatim>\<open>std::array\<close>; \<^verbatim>\<open>m_types[i]\<close> is written without a
  bound check.
\<close>

function ParseTypes_loop ::
  "('p, 'r, 'c, 'q) Extern \<Rightarrow> u8 list \<Rightarrow> nat \<Rightarrow> nat \<Rightarrow> nat \<Rightarrow> u32 list \<Rightarrow>
   error + (u32 list \<times> nat)" where
  "ParseTypes_loop ext data count i pos types =
     (if i < count
      then (if i < length types
            then ParseTypes_loop ext data count (i + 1) (snd (ReadVarUint ext data pos))
                   (types[i := (if GetTypeForIndex ext (fst (ReadVarUint ext data pos)) > 0
                                then GetTypeForIndex ext (fst (ReadVarUint ext data pos))
                                else GetStubType ext)])
            else Inl OutOfRange)
      else Inr (types, pos))"
  by pat_completeness auto
termination
  by (relation "measure (\<lambda>(ext, data, count, i, pos, types). count - i)") auto

declare ParseTypes_loop.simps [simp del]

definition ParseTypes ::
  "('p, 'r, 'c, 'q) Extern \<Rightarrow> ('p, 'r, 'c, 'q) FeatureType \<Rightarrow>
   error + ('p, 'r, 'c, 'q) FeatureType" where
  "ParseTypes ext f =
     (if m_parsed_m_types f then Inr f
      else (case ParseTypes_loop ext (m_data f) (GetTypesCount ext (m_header f)) 0 1 (m_types f) of
              Inl e \<Rightarrow> Inl e
            | Inr (types, pos) \<Rightarrow>
                Inr (f\<lparr>m_types := types, m_offsets_m_common := CalcOffset pos,
                        m_parsed_m_types := True\<rparr>)))"

definition ParseCommon ::
  "('p, 'r, 'c, 'q) Extern \<Rightarrow> ('p, 'r, 'c, 'q) FeatureType \<Rightarrow>
   error + ('p, 'r, 'c, 'q) FeatureType" where
  "ParseCommon ext f =
     (if m_parsed_m_common f then Inr f
      else (case m_loadInfo f of
              None \<Rightarrow> Inl CheckFailed
            | Some li \<Rightarrow>
               (case ParseTypes ext f of
                  Inl e \<Rightarrow> Inl e
                | Inr f1 \<Rightarrow>
                   (case Header (m_data f1) of
                      Inl e \<Rightarrow> Inl e
                    | Inr h \<Rightarrow>
                       (let r = params_Read ext (m_params f1) (m_data f1)
                                  (unat (m_offsets_m_common f1)) h;
                            f2 = f1\<lparr>m_params := fst r\<rparr>
                        in if GetGeomType ext f2 = GeomType_Point
                           then (let c = LoadPoint ext (m_data f2) (snd r)
                                           (GetDefGeometryCodingParams li)
                                 in Inr (f2\<lparr>m_center := fst c,
                                           m_limitRect := RectD_Add ext (m_limitRect f2) (fst c),
                                           m_offsets_m_header2 := CalcOffset (snd c),
                                           m_parsed_m_common := True\<rparr>))
                           else Inr (f2\<lparr>m_offsets_m_header2 := CalcOffset (snd r),
                                        m_parsed_m_common := True\<rparr>))))))"

text \<open>\<^verbatim>\<open>GetLayer\<close> returns the layer and the feature as the call leaves it.\<close>

definition GetLayer ::
  "('p, 'r, 'c, 'q) Extern \<Rightarrow> ('p, 'r, 'c, 'q) FeatureType \<Rightarrow>
   error + (u8 \<times> ('p, 'r, 'c, 'q) FeatureType)" where
  "GetLayer ext f =
     (if m_header f AND HEADER_MASK_HAS_LAYER ext = 0 then Inr (0, f)
      else (case ParseCommon ext f of
              Inl e \<Rightarrow> Inl e
            | Inr f1 \<Rightarrow> Inr (params_layer ext (m_params f1), f1)))"

text \<open>
  \<^verbatim>\<open>ParseHeader2\<close>. The bit-packed prefix first: a 4-bit count and, when the count is
  zero, a 4-bit mask of the outer offsets present; the result carries \<^verbatim>\<open>RoundPtr()\<close>.
  The source reads it for a line (\<^verbatim>\<open>ptsCount\<close>, \<^verbatim>\<open>ptsMask\<close>) and for an area
  (\<^verbatim>\<open>trgCount\<close>, \<^verbatim>\<open>trgMask\<close>) with the same two calls.
\<close>

definition ParseHeader2_bits :: "u8 list \<Rightarrow> nat \<Rightarrow> error + (u8 \<times> u8 \<times> nat)" where
  "ParseHeader2_bits data start =
     (case BitSource_Read data \<lparr>m_ptr = start, m_pos = 0\<rparr> 4 of
        Inl e \<Rightarrow> Inl e
      | Inr (cnt, b1) \<Rightarrow>
          if cnt = 0
          then (case BitSource_Read data b1 4 of
                  Inl e \<Rightarrow> Inl e
                | Inr (msk, b2) \<Rightarrow> Inr (cnt, msk, RoundPtr b2))
          else Inr (cnt, 0, RoundPtr b1))"

text \<open>
  The loop over the bytes of the simplification mask:
  \<^verbatim>\<open>m_ptsSimpMask += (mask << (i << 3))\<close>, in \<^verbatim>\<open>uint32_t\<close>.
\<close>

function ptsSimpMask_loop :: "u8 list \<Rightarrow> int \<Rightarrow> int \<Rightarrow> nat \<Rightarrow> u32 \<Rightarrow> error + (u32 \<times> nat)" where
  "ptsSimpMask_loop data count i pos simpMask =
     (if i < count
      then (case ReadByte data pos of
              Inl e \<Rightarrow> Inl e
            | Inr (b, pos') \<Rightarrow>
                ptsSimpMask_loop data count (i + 1) pos'
                  (simpMask + push_bit (nat (push_bit 3 i)) (ucast b)))
      else Inr (simpMask, pos))"
  by pat_completeness auto
termination
  by (relation "measure (\<lambda>(data, count, i, pos, simpMask). nat (count - i))") auto

declare ptsSimpMask_loop.simps [simp del]

definition ParseHeader2_line ::
  "('p, 'r, 'c, 'q) Extern \<Rightarrow> 'c SharedLoadInfo \<Rightarrow> ('p, 'r, 'c, 'q) FeatureType \<Rightarrow>
   u8 \<Rightarrow> u8 \<Rightarrow> nat \<Rightarrow> error + (('p, 'r, 'c, 'q) FeatureType \<times> nat)" where
  "ParseHeader2_line ext li f ptsCount ptsMask pos =
     (let cp = GetDefGeometryCodingParams li
      in if ptsCount > 0
         then (let count = ((uint ptsCount - 2) + 4 - 1) div 4
               in case ptsSimpMask_loop (m_data f) count 0 pos (m_ptsSimpMask f) of
                    Inl e \<Rightarrow> Inl e
                  | Inr (simpMask, start) \<Rightarrow>
                      (let r = LoadInnerPath ext (m_data f) start (unat ptsCount) cp
                       in Inr (f\<lparr>m_ptsSimpMask := simpMask,
                                 m_points := m_points f @ fst r,
                                 m_innerStats_m_points := CalcOffset (snd r) - CalcOffset start\<rparr>,
                               snd r)))
         else (let c = LoadPoint ext (m_data f) pos cp
               in case ReadOffsets ext li (m_data f) (snd c) ptsMask (m_offsets_m_pts f) of
                    Inl e \<Rightarrow> Inl e
                  | Inr (offsets, pos') \<Rightarrow>
                      Inr (f\<lparr>m_points := m_points f @ [fst c], m_offsets_m_pts := offsets\<rparr>,
                           pos')))"

definition ParseHeader2_area ::
  "('p, 'r, 'c, 'q) Extern \<Rightarrow> 'c SharedLoadInfo \<Rightarrow> ('p, 'r, 'c, 'q) FeatureType \<Rightarrow>
   u8 \<Rightarrow> u8 \<Rightarrow> nat \<Rightarrow> error + (('p, 'r, 'c, 'q) FeatureType \<times> nat)" where
  "ParseHeader2_area ext li f trgCount trgMask pos =
     (let cp = GetDefGeometryCodingParams li
      in if trgCount > 0
         then (let r = LoadInnerTriangles ext (m_data f) pos (unat (trgCount + 2)) cp
               in Inr (f\<lparr>m_triangles := m_triangles f @ fst r,
                         m_innerStats_m_strips := CalcOffset (snd r) - CalcOffset pos\<rparr>,
                       snd r))
         else (case ReadOffsets ext li (m_data f) pos trgMask (m_offsets_m_trg f) of
                 Inl e \<Rightarrow> Inl e
               | Inr (offsets, pos') \<Rightarrow> Inr (f\<lparr>m_offsets_m_trg := offsets\<rparr>, pos')))"

definition ParseHeader2 ::
  "('p, 'r, 'c, 'q) Extern \<Rightarrow> ('p, 'r, 'c, 'q) FeatureType \<Rightarrow>
   error + ('p, 'r, 'c, 'q) FeatureType" where
  "ParseHeader2 ext f =
     (if m_parsed_m_header2 f then Inr f
      else (case m_loadInfo f of
              None \<Rightarrow> Inl CheckFailed
            | Some li \<Rightarrow>
               (case ParseCommon ext f of
                  Inl e \<Rightarrow> Inl e
                | Inr f1 \<Rightarrow>
                   (case Header (m_data f1) of
                      Inl e \<Rightarrow> Inl e
                    | Inr h \<Rightarrow>
                       (let headerGeomType = h AND HEADER_MASK_GEOMTYPE ext;
                            start = unat (m_offsets_m_header2 f1)
                        in if headerGeomType = HeaderGeomType_Line ext
                           then (case ParseHeader2_bits (m_data f1) start of
                                   Inl e \<Rightarrow> Inl e
                                 | Inr (ptsCount, ptsMask, pos) \<Rightarrow>
                                    (case ParseHeader2_line ext li f1 ptsCount ptsMask pos of
                                       Inl e \<Rightarrow> Inl e
                                     | Inr (f2, pos2) \<Rightarrow>
                                         Inr (f2\<lparr>m_innerStats_m_size := CalcOffset pos2,
                                                 m_parsed_m_header2 := True\<rparr>)))
                           else if headerGeomType = HeaderGeomType_Area ext
                           then (case ParseHeader2_bits (m_data f1) start of
                                   Inl e \<Rightarrow> Inl e
                                 | Inr (trgCount, trgMask, pos) \<Rightarrow>
                                    (case ParseHeader2_area ext li f1 trgCount trgMask pos of
                                       Inl e \<Rightarrow> Inl e
                                     | Inr (f2, pos2) \<Rightarrow>
                                         Inr (f2\<lparr>m_innerStats_m_size := CalcOffset pos2,
                                                 m_parsed_m_header2 := True\<rparr>)))
                           else Inr (f1\<lparr>m_innerStats_m_size := CalcOffset start,
                                        m_parsed_m_header2 := True\<rparr>))))))"

definition ResetGeometry ::
  "('p, 'r, 'c, 'q) Extern \<Rightarrow> ('p, 'r, 'c, 'q) FeatureType \<Rightarrow> ('p, 'r, 'c, 'q) FeatureType" where
  "ResetGeometry ext f =
     (if m_loadInfo f = None then f
      else f\<lparr>m_points := [],
             m_triangles := [],
             m_limitRect := (if GetGeomType ext f \<noteq> GeomType_Point then RectD_empty ext
                             else m_limitRect f),
             m_parsed_m_header2 := False,
             m_parsed_m_points := False,
             m_parsed_m_triangles := False,
             m_offsets_m_pts := [],
             m_offsets_m_trg := [],
             m_ptsSimpMask := 0\<rparr>)"

text \<open>
  \<^verbatim>\<open>ParseGeometry\<close>, inner geometry: the 2-bit marker of point \<open>i\<close>, the filter loop with
  its running \<^verbatim>\<open>minScale\<close>, and the fallback loop. A shift by 32 bits or more is
  undefined in the source; \<open>drop_bit\<close> gives 0 there.
\<close>

definition pointScale :: "u32 \<Rightarrow> nat \<Rightarrow> int" where
  "pointScale simpMask i = uint (drop_bit (2 * (i - 1)) simpMask AND 0x3)"

function filter_loop ::
  "'p list \<Rightarrow> u32 \<Rightarrow> int \<Rightarrow> nat \<Rightarrow> nat \<Rightarrow> 'p list \<Rightarrow> int \<Rightarrow> 'p list \<times> int" where
  "filter_loop pts simpMask scaleIndex count i points minScale =
     (if i + 1 < count
      then (if pointScale simpMask i \<le> scaleIndex
            then filter_loop pts simpMask scaleIndex count (i + 1) (points @ [pts ! i]) minScale
            else if length points = 1 \<and> minScale > pointScale simpMask i
            then filter_loop pts simpMask scaleIndex count (i + 1) points (pointScale simpMask i)
            else filter_loop pts simpMask scaleIndex count (i + 1) points minScale)
      else (points, minScale))"
  by pat_completeness auto
termination
  by (relation "measure (\<lambda>(pts, simpMask, scaleIndex, count, i, points, minScale). count - i)")
    auto

declare filter_loop.simps [simp del]

function fallback_loop ::
  "'p list \<Rightarrow> u32 \<Rightarrow> int \<Rightarrow> nat \<Rightarrow> nat \<Rightarrow> 'p list \<Rightarrow> 'p list" where
  "fallback_loop pts simpMask minScale count i points =
     (if i + 1 < count
      then (if pointScale simpMask i = minScale
            then fallback_loop pts simpMask minScale count (i + 1) (points @ [pts ! i])
            else fallback_loop pts simpMask minScale count (i + 1) points)
      else points)"
  by pat_completeness auto
termination
  by (relation "measure (\<lambda>(pts, simpMask, minScale, count, i, points). count - i)") auto

declare fallback_loop.simps [simp del]

text \<open>The inner branch, entered with \<open>count \<ge> 2\<close>: the points that replace \<^verbatim>\<open>m_points\<close>.\<close>

definition ParseGeometry_inner :: "'c SharedLoadInfo \<Rightarrow> int \<Rightarrow> 'p list \<Rightarrow> u32 \<Rightarrow> 'p list" where
  "ParseGeometry_inner li scale pts simpMask =
     (let count = length pts;
          scaleIndex = GetScaleIndex li scale;
          r = filter_loop pts simpMask scaleIndex count 1 [pts ! 0] (GetScalesCount li - 1);
          points = (if length (fst r) = 1
                    then fallback_loop pts simpMask (snd r) count 1 (fst r)
                    else fst r)
      in points @ [pts ! (count - 1)])"

text \<open>
  The outer branch, entered with \<open>count < 2\<close>: the lookup, the retry with
  \<^verbatim>\<open>WORST_GEOMETRY\<close>, and the decoding at the index found. \<^verbatim>\<open>m_points[0]\<close> is read without
  a bound check. The result is \<^verbatim>\<open>sz\<close> and the feature.
\<close>

definition ParseGeometry_outer ::
  "('p, 'r, 'c, 'q) Extern \<Rightarrow> 'c SharedLoadInfo \<Rightarrow> int \<Rightarrow> ('p, 'r, 'c, 'q) FeatureType \<Rightarrow>
   error + (u32 \<times> ('p, 'r, 'c, 'q) FeatureType)" where
  "ParseGeometry_outer ext li scale f =
     (case GetScaleIndex_offsets li scale (m_offsets_m_pts f) of
        Inl e \<Rightarrow> Inl e
      | Inr ind0 \<Rightarrow>
         (case (if ind0 = -1
                then GetScaleIndex_offsets li WORST_GEOMETRY (m_offsets_m_pts f)
                else Inr ind0) of
            Inl e \<Rightarrow> Inl e
          | Inr ind \<Rightarrow>
              if ind \<noteq> -1
              then (case m_points f of
                      [] \<Rightarrow> Inl OutOfRange
                    | p0 # _ \<Rightarrow>
                       (let off = m_offsets_m_pts f ! nat ind;
                            cp = SetBasePoint ext (GetGeometryCodingParams li ind) p0;
                            r = LoadOuterPath ext (GetGeometryReader li ind) (unat off) cp
                        in Inr (CalcOffset (snd r) - off, f\<lparr>m_points := m_points f @ fst r\<rparr>)))
              else Inr (0, f)))"

definition ParseGeometry ::
  "('p, 'r, 'c, 'q) Extern \<Rightarrow> int \<Rightarrow> ('p, 'r, 'c, 'q) FeatureType \<Rightarrow>
   error + (u32 \<times> ('p, 'r, 'c, 'q) FeatureType)" where
  "ParseGeometry ext scale f =
     (if m_parsed_m_points f then Inr (0, f)
      else (case m_loadInfo f of
              None \<Rightarrow> Inl CheckFailed
            | Some li \<Rightarrow>
               (case ParseHeader2 ext f of
                  Inl e \<Rightarrow> Inl e
                | Inr f1 \<Rightarrow>
                   (case Header (m_data f1) of
                      Inl e \<Rightarrow> Inl e
                    | Inr h \<Rightarrow>
                       if h AND HEADER_MASK_GEOMTYPE ext = HeaderGeomType_Line ext
                       then (case (if length (m_points f1) < 2
                                   then ParseGeometry_outer ext li scale f1
                                   else Inr (0, f1\<lparr>m_points := ParseGeometry_inner li scale
                                                      (m_points f1) (m_ptsSimpMask f1)\<rparr>)) of
                               Inl e \<Rightarrow> Inl e
                             | Inr (sz, f2) \<Rightarrow>
                                 Inr (sz, f2\<lparr>m_limitRect := CalcRect ext (m_points f2) (m_limitRect f2),
                                            m_parsed_m_points := True\<rparr>))
                       else Inr (0, f1\<lparr>m_parsed_m_points := True\<rparr>)))))"

definition ParseTriangles ::
  "('p, 'r, 'c, 'q) Extern \<Rightarrow> int \<Rightarrow> ('p, 'r, 'c, 'q) FeatureType \<Rightarrow>
   error + (u32 \<times> ('p, 'r, 'c, 'q) FeatureType)" where
  "ParseTriangles ext scale f =
     (if m_parsed_m_triangles f then Inr (0, f)
      else (case m_loadInfo f of
              None \<Rightarrow> Inl CheckFailed
            | Some li \<Rightarrow>
               (case ParseHeader2 ext f of
                  Inl e \<Rightarrow> Inl e
                | Inr f1 \<Rightarrow>
                   (case Header (m_data f1) of
                      Inl e \<Rightarrow> Inl e
                    | Inr h \<Rightarrow>
                       if h AND HEADER_MASK_GEOMTYPE ext = HeaderGeomType_Area ext
                       then (case (if m_triangles f1 = []
                                   then (case GetScaleIndex_offsets li scale (m_offsets_m_trg f1) of
                                           Inl e \<Rightarrow> Inl e
                                         | Inr ind \<Rightarrow>
                                             if ind \<noteq> -1
                                             then (let off = m_offsets_m_trg f1 ! nat ind;
                                                       r = LoadOuterTriangles ext
                                                             (GetTrianglesReader li ind) (unat off)
                                                             (GetGeometryCodingParams li ind)
                                                   in Inr (CalcOffset (snd r) - off,
                                                           f1\<lparr>m_triangles := m_triangles f1 @ fst r\<rparr>))
                                             else Inr (0, f1))
                                   else Inr (0, f1)) of
                               Inl e \<Rightarrow> Inl e
                             | Inr (sz, f2) \<Rightarrow>
                                 Inr (sz, f2\<lparr>m_limitRect := CalcRect ext (m_triangles f2) (m_limitRect f2),
                                            m_parsed_m_triangles := True\<rparr>))
                       else Inr (0, f1\<lparr>m_parsed_m_triangles := True\<rparr>)))))"




text \<open>\<^verbatim>\<open>ParseGeometry(scale)\<close> followed by \<^verbatim>\<open>GetPoints()\<close>.\<close>

definition GetPoints_at ::
  "('p, 'r, 'c, 'q) Extern \<Rightarrow> int \<Rightarrow> ('p, 'r, 'c, 'q) FeatureType \<Rightarrow> error + 'p list" where
  "GetPoints_at ext scale f =
     (case ParseGeometry ext scale f of
        Inl e \<Rightarrow> Inl e
      | Inr (sz, g) \<Rightarrow> Inr (m_points g))"

text \<open>
  The inner line as the specification words it, for comparison with the code: the first
  and the last point always, an intermediate point when its marker is at most the scale
  index, and, when none is, the intermediate points of the smallest marker.
\<close>

definition spec_inner_line :: "int \<Rightarrow> 'p list \<Rightarrow> u32 \<Rightarrow> 'p list" where
  "spec_inner_line scaleIndex pts simpMask =
     (let mids = [1..<length pts - 1];
          kept = filter (\<lambda>j. pointScale simpMask j \<le> scaleIndex) mids
      in pts ! 0 #
         map ((!) pts)
           (if kept = []
            then filter (\<lambda>j. list_all (\<lambda>i. pointScale simpMask j \<le> pointScale simpMask i) mids) mids
            else kept) @
         [pts ! (length pts - 1)])"
text \<open>
  A concrete instance for the examples: points are integers, a rectangle is the interval
  of the points added to it, a varint and a point take one byte each, and the header
  byte is laid out as the specification says (bits 0-1 the geometry type, 1 a line, 2 an
  area), with bit 4 for the layer.
\<close>

definition ex_Add :: "(int \<times> int) option \<Rightarrow> int \<Rightarrow> (int \<times> int) option" where
  "ex_Add r p = (case r of None \<Rightarrow> Some (p, p) | Some (a, b) \<Rightarrow> Some (min a p, max b p))"

definition ex_ext :: "(int, (int \<times> int) option, int, u8) Extern" where
  "ex_ext = \<lparr>HEADER_MASK_GEOMTYPE = 0x3, HEADER_MASK_HAS_LAYER = 0x10,
             HeaderGeomType_Line = 0x1, HeaderGeomType_Area = 0x2,
             GetTypesCount = (\<lambda>h. 1),
             GetTypeForIndex = (\<lambda>i. i),
             GetStubType = 1,
             ReadVarUint = (\<lambda>data pos. (ucast (data ! pos), pos + 1)),
             params_Read = (\<lambda>q data pos h. if h AND 0x10 \<noteq> 0 then (data ! pos, pos + 1)
                                           else (q, pos)),
             params_layer = (\<lambda>q. q),
             LoadPoint = (\<lambda>data pos cp. (cp + uint (data ! pos), pos + 1)),
             LoadInnerPath = (\<lambda>data pos n cp.
                                (map (\<lambda>b. cp + uint b) (take n (drop pos data)), pos + n)),
             LoadInnerTriangles = (\<lambda>data pos n cp.
                                (map (\<lambda>b. cp + uint b) (take n (drop pos data)), pos + n)),
             LoadOuterPath = (\<lambda>stream pos cp.
                                (map (\<lambda>b. cp + uint b) (drop pos stream), length stream)),
             LoadOuterTriangles = (\<lambda>stream pos cp.
                                (map (\<lambda>b. cp + uint b) (drop pos stream), length stream)),
             SetBasePoint = (\<lambda>c p. p),
             RectD_empty = None,
             RectD_Add = ex_Add,
             CalcRect = (\<lambda>ps r. fold (\<lambda>p r. ex_Add r p) ps r)\<rparr>"

text \<open>A feature as the constructor from a buffer leaves it: nothing parsed yet.\<close>

definition ex_feature :: "u8 list \<Rightarrow> (int, (int \<times> int) option, int, u8) FeatureType" where
  "ex_feature data =
     \<lparr>m_loadInfo = Some ex_li, m_data = data, m_header = data ! 0,
      m_types = replicate 8 0, m_params = 0, m_center = 0, m_limitRect = None,
      m_points = [], m_triangles = [], m_ptsSimpMask = 0,
      m_parsed_m_types = False, m_parsed_m_common = False, m_parsed_m_header2 = False,
      m_parsed_m_points = False, m_parsed_m_triangles = False,
      m_parsed_m_metadata = False, m_parsed_m_metaIds = False,
      m_offsets_m_common = 0, m_offsets_m_header2 = 0, m_offsets_m_pts = [], m_offsets_m_trg = [],
      m_innerStats_m_points = 0, m_innerStats_m_strips = 0, m_innerStats_m_size = 0\<rparr>"

text \<open>
  A line with layer 3 and inner geometry: five points 10, 20, 30, 40, 50, whose three
  intermediate points carry the markers 2, 1, 3 (the mask byte \<open>0x36\<close>).
\<close>

definition ex_inner :: "(int, (int \<times> int) option, int, u8) FeatureType" where
  "ex_inner = ex_feature [0x11, 7, 3, 0x05, 0x36, 10, 20, 30, 40, 50]"

text \<open>
  A line with outer geometry: first point 100, and the offsets 0 and 2 for the scale
  indices 1 and 2 (the mask \<open>0110\<close>).
\<close>

definition ex_outer :: "(int, (int \<times> int) option, int, u8) FeatureType" where
  "ex_outer = ex_feature [0x11, 7, 3, 0x60, 100, 0, 2]"

text \<open>A line with outer geometry and no offset populated: first point 100.\<close>

definition ex_outer_none :: "(int, (int \<times> int) option, int, u8) FeatureType" where
  "ex_outer_none = ex_feature [0x11, 7, 3, 0x00, 100]"

text \<open>A line without the layer flag.\<close>

definition ex_nolayer :: "(int, (int \<times> int) option, int, u8) FeatureType" where
  "ex_nolayer = ex_feature [0x01, 7, 0x05, 0x36, 10, 20, 30, 40, 50]"

text \<open>
  A line as the constructor from a \<^verbatim>\<open>MapObject\<close> leaves it: no load info, every stage
  marked parsed, the points in place.
\<close>

definition ex_mapobject :: "(int, (int \<times> int) option, int, u8) FeatureType" where
  "ex_mapobject =
     \<lparr>m_loadInfo = None, m_data = [], m_header = 0x01,
      m_types = replicate 8 0, m_params = 0, m_center = 0, m_limitRect = Some (1, 2),
      m_points = [1, 2], m_triangles = [], m_ptsSimpMask = 0,
      m_parsed_m_types = True, m_parsed_m_common = True, m_parsed_m_header2 = True,
      m_parsed_m_points = True, m_parsed_m_triangles = True,
      m_parsed_m_metadata = True, m_parsed_m_metaIds = True,
      m_offsets_m_common = 0, m_offsets_m_header2 = 0, m_offsets_m_pts = [], m_offsets_m_trg = [],
      m_innerStats_m_points = 0, m_innerStats_m_strips = 0, m_innerStats_m_size = 0\<rparr>"

text \<open>
  The five points again, with the markers 3, 2, 3 (the mask byte \<open>0x3B\<close>), in the
  container of two scales.
\<close>

definition ex_inner2 :: "(int, (int \<times> int) option, int, u8) FeatureType" where
  "ex_inner2 = (ex_feature [0x11, 7, 3, 0x05, 0x3B, 10, 20, 30, 40, 50])\<lparr>m_loadInfo := Some ex_li2\<rparr>"

text \<open>A line whose header2 gives the count 1: one inner point and no mask byte.\<close>

definition ex_inner_one :: "(int, (int \<times> int) option, int, u8) FeatureType" where
  "ex_inner_one = ex_feature [0x11, 7, 3, 0x01, 10]"

section \<open>Read manager\<close>

text \<open>
  \<^verbatim>\<open>TileKey\<close>, built as \<^verbatim>\<open>TileKey(tileX, tileY, tileScale)\<close>. Its \<^verbatim>\<open>operator<\<close> is declared
  outside the sources at hand.
\<close>

datatype TileKey = TileKey (m_x: int) (m_y: int) (m_zoomLevel: int)

text \<open>
  Modelled from the spec: the missing \<^verbatim>\<open>TileKey::operator<\<close>, "totally ordered
  lexicographically \<open>(z, x, y)\<close>".
\<close>

definition TileKey_ord :: "TileKey \<Rightarrow> int \<times> int \<times> int" where
  "TileKey_ord k = (m_zoomLevel k, m_x k, m_y k)"

definition TileKey_less :: "TileKey \<Rightarrow> TileKey \<Rightarrow> bool" where
  "TileKey_less l r = (TileKey_ord l < TileKey_ord r)"

text \<open>
  Modelled from the spec: the missing class \<^verbatim>\<open>TileInfo\<close>, with its immutable key and its
  cancellation flag, which \<^verbatim>\<open>Cancel\<close> sets (the release of the memory ticket is not
  modelled). A \<^verbatim>\<open>shared_ptr<TileInfo>\<close> is the position of the object in the store
  \<open>m_heap\<close>; \<^verbatim>\<open>new TileInfo\<close> appends to the store.
\<close>

record TileInfo =
  m_key :: TileKey
  m_isCanceled :: bool

type_synonym tileinfo_ptr = nat

definition GetTileKey :: "TileInfo list \<Rightarrow> tileinfo_ptr \<Rightarrow> TileKey" where
  "GetTileKey h p = m_key (h ! p)"

definition Cancel :: "tileinfo_ptr \<Rightarrow> TileInfo list \<Rightarrow> TileInfo list" where
  "Cancel p h = h[p := (h ! p)\<lparr>m_isCanceled := True\<rparr>]"

text \<open>
  Modelled from the spec: the missing \<^verbatim>\<open>CoverageUpdateDescriptor\<close>, "two operations only:
  \<open>drop_all()\<close> and \<open>drop_tiles(keys)\<close>", as the list of the calls made on it.
\<close>

datatype DescriptorCall = DropAll | DropTiles "TileKey list"

text \<open>
  A \<^verbatim>\<open>std::set\<close> is the list of its elements in increasing order. \<^verbatim>\<open>insert\<close> leaves the
  set as it is when an equivalent element is there; \<^verbatim>\<open>erase\<close> removes the equivalent
  element; \<^verbatim>\<open>std::set_difference\<close> is the merge of the standard library, with the two
  directions of the comparison (\<^verbatim>\<open>LessCoverageCell\<close> has one overload for each).
\<close>

fun set_insert :: "('a \<Rightarrow> 'a \<Rightarrow> bool) \<Rightarrow> 'a \<Rightarrow> 'a list \<Rightarrow> 'a list" where
  "set_insert lt x [] = [x]"
| "set_insert lt x (y # ys) =
     (if lt x y then x # y # ys
      else if lt y x then y # set_insert lt x ys
      else y # ys)"

fun set_erase :: "('a \<Rightarrow> 'a \<Rightarrow> bool) \<Rightarrow> 'a \<Rightarrow> 'a list \<Rightarrow> 'a list" where
  "set_erase lt x [] = []"
| "set_erase lt x (y # ys) =
     (if \<not> lt x y \<and> \<not> lt y x then ys else y # set_erase lt x ys)"

fun set_difference ::
  "('a \<Rightarrow> 'b \<Rightarrow> bool) \<Rightarrow> ('b \<Rightarrow> 'a \<Rightarrow> bool) \<Rightarrow> 'a list \<Rightarrow> 'b list \<Rightarrow> 'a list" where
  "set_difference comp12 comp21 [] ys = []"
| "set_difference comp12 comp21 (x # xs) [] = x # xs"
| "set_difference comp12 comp21 (x # xs) (y # ys) =
     (if comp12 x y then x # set_difference comp12 comp21 xs (y # ys)
      else if \<not> comp21 y x then set_difference comp12 comp21 xs ys
      else set_difference comp12 comp21 (x # xs) ys)"

text \<open>
  What the manager calls on \<^verbatim>\<open>ScreenBase\<close>, \<^verbatim>\<open>ScalesProcessor\<close>, \<^verbatim>\<open>m2::AnyRectD\<close> and
  \<^verbatim>\<open>MercatorBounds\<close>, all declared outside the sources at hand and taken as they come.
  \<open>'s\<close> is \<^verbatim>\<open>ScreenBase\<close>, compared with \<open>=\<close>; \<open>'a\<close> is \<^verbatim>\<open>m2::AnyRectD\<close>; an \<^verbatim>\<open>m2::RectD\<close>
  is its four coordinates \<open>(minX, minY, maxX, maxY)\<close>. \<open>'d\<close> is \<^verbatim>\<open>double\<close>, and its
  arithmetic is taken as it comes too, with its rounding and its infinities: the
  difference, the quotient, the product and the sum of two doubles, the conversion of an
  \<^verbatim>\<open>int\<close>, and \<^verbatim>\<open>static_cast<int>(floor(x))\<close> and \<^verbatim>\<open>static_cast<int>(ceil(x))\<close>, whatever
  they give where the cast overflows. \<open>shift_undefined\<close> is what \<^verbatim>\<open>1 << n\<close> gives where the
  language leaves it open.
\<close>

type_synonym 'd RectD = "'d \<times> 'd \<times> 'd \<times> 'd"

record ('s, 'a, 'd) ScreenEnv =
  ScreenBase_default :: 's
  GetTileScaleBase :: "'s \<Rightarrow> int"
  GlobalRect :: "'s \<Rightarrow> 'a"
  ClipRect :: "'s \<Rightarrow> 'd RectD"
  IsIntersect :: "'a \<Rightarrow> 'a \<Rightarrow> bool"
  AnyRectD :: "'d RectD \<Rightarrow> 'a"
  MercatorBounds_minX :: 'd
  MercatorBounds_maxX :: 'd
  double_sub :: "'d \<Rightarrow> 'd \<Rightarrow> 'd"
  double_div :: "'d \<Rightarrow> 'd \<Rightarrow> 'd"
  double_mul :: "'d \<Rightarrow> 'd \<Rightarrow> 'd"
  double_add :: "'d \<Rightarrow> 'd \<Rightarrow> 'd"
  double_of_int :: "int \<Rightarrow> 'd"
  floor_to_int :: "'d \<Rightarrow> int"
  ceil_to_int :: "'d \<Rightarrow> int"
  shift_undefined :: "int \<Rightarrow> int"

text \<open>
  \<^verbatim>\<open>ReadManager\<close>: the viewport, the live set (ordered by the key of the tile pointed
  to), the store of the \<^verbatim>\<open>TileInfo\<close> objects, and the pool. Modelled from the spec: the
  missing \<^verbatim>\<open>threads::ThreadPool\<close>, as the deque of its pending tasks: "front-insert means
  run next; back-insert means run after all pending". A task is the pointer of its
  tile; the workers, which take tasks from the front, are not modelled.
\<close>

record 's ReadManager =
  m_currentViewport :: 's
  m_tileInfos :: "tileinfo_ptr list"
  m_pool :: "tileinfo_ptr list"
  m_heap :: "TileInfo list"

definition LessByTileKey :: "TileInfo list \<Rightarrow> tileinfo_ptr \<Rightarrow> tileinfo_ptr \<Rightarrow> bool" where
  "LessByTileKey h l r = TileKey_less (GetTileKey h l) (GetTileKey h r)"

definition ReadManager_init :: "('s, 'a, 'd) ScreenEnv \<Rightarrow> 's ReadManager" where
  "ReadManager_init env =
     \<lparr>m_currentViewport = ScreenBase_default env, m_tileInfos = [], m_pool = [], m_heap = []\<rparr>"

text \<open>\<^verbatim>\<open>1 << n\<close> on \<^verbatim>\<open>int\<close>: \<open>2 ^ n\<close> for a count from 0 to 30.\<close>

definition shift_left_1 :: "('s, 'a, 'd) ScreenEnv \<Rightarrow> int \<Rightarrow> int" where
  "shift_left_1 env n = (if 0 \<le> n \<and> n < 31 then 2 ^ nat n else shift_undefined env n)"

text \<open>
  \<^verbatim>\<open>GetTileKeys\<close>: the two nested loops over \<^verbatim>\<open>tileY\<close> and \<^verbatim>\<open>tileX\<close>, which insert into the
  ordered set \<^verbatim>\<open>out\<close>.
\<close>

definition GetTileKeys :: "('s, 'a, 'd) ScreenEnv \<Rightarrow> 's \<Rightarrow> TileKey list" where
  "GetTileKeys env screen =
     (let tileScale = GetTileScaleBase env screen;
          range = double_sub env (MercatorBounds_maxX env) (MercatorBounds_minX env);
          rectSize = double_div env range (double_of_int env (shift_left_1 env tileScale));
          globalRect = GlobalRect env screen;
          clipRect = ClipRect env screen;
          minTileX = floor_to_int env (double_div env (fst clipRect) rectSize);
          maxTileX = ceil_to_int env (double_div env (fst (snd (snd clipRect))) rectSize);
          minTileY = floor_to_int env (double_div env (fst (snd clipRect)) rectSize);
          maxTileY = ceil_to_int env (double_div env (snd (snd (snd clipRect))) rectSize)
      in fold (\<lambda>tileY out.
           fold (\<lambda>tileX out.
             (let left = double_mul env (double_of_int env tileX) rectSize;
                  top = double_mul env (double_of_int env tileY) rectSize;
                  currentTileRect = (left, top, double_add env left rectSize,
                                     double_add env top rectSize)
              in if IsIntersect env globalRect (AnyRectD env currentTileRect)
                 then set_insert TileKey_less (TileKey tileX tileY tileScale) out
                 else out))
             [minTileX..maxTileX - 1] out)
           [minTileY..maxTileY - 1] [])"

definition MustDropAllTiles :: "('s, 'a, 'd) ScreenEnv \<Rightarrow> 's ReadManager \<Rightarrow> 's \<Rightarrow> bool" where
  "MustDropAllTiles env m screen =
     (let oldScale = GetTileScaleBase env (m_currentViewport m);
          newScale = GetTileScaleBase env screen
      in oldScale \<noteq> newScale \<or>
         \<not> IsIntersect env (GlobalRect env (m_currentViewport m)) (GlobalRect env screen))"

definition PushTaskBackForTileKey :: "TileKey \<Rightarrow> 's ReadManager \<Rightarrow> 's ReadManager" where
  "PushTaskBackForTileKey tileKey m =
     (let tileInfo = length (m_heap m);
          h = m_heap m @ [\<lparr>m_key = tileKey, m_isCanceled = False\<rparr>]
      in m\<lparr>m_heap := h,
            m_tileInfos := set_insert (LessByTileKey h) tileInfo (m_tileInfos m),
            m_pool := m_pool m @ [tileInfo]\<rparr>)"

definition PushTaskFront :: "tileinfo_ptr \<Rightarrow> 's ReadManager \<Rightarrow> 's ReadManager" where
  "PushTaskFront tileToReread m = m\<lparr>m_pool := tileToReread # m_pool m\<rparr>"

definition CancelTileInfo :: "tileinfo_ptr \<Rightarrow> 's ReadManager \<Rightarrow> 's ReadManager" where
  "CancelTileInfo tileToCancel m = m\<lparr>m_heap := Cancel tileToCancel (m_heap m)\<rparr>"

definition ClearTileInfo :: "tileinfo_ptr \<Rightarrow> 's ReadManager \<Rightarrow> 's ReadManager" where
  "ClearTileInfo tileToClear m =
     (let m1 = CancelTileInfo tileToClear m
      in m1\<lparr>m_tileInfos := set_erase (LessByTileKey (m_heap m1)) tileToClear (m_tileInfos m1)\<rparr>)"

text \<open>\<^verbatim>\<open>UpdateCoverage\<close> returns the manager and the descriptor as the call leaves them.\<close>

definition UpdateCoverage ::
  "('s, 'a, 'd) ScreenEnv \<Rightarrow> 's \<Rightarrow> DescriptorCall list \<Rightarrow> 's ReadManager \<Rightarrow>
   's ReadManager \<times> DescriptorCall list" where
  "UpdateCoverage env screen updateDescr m =
     (if screen = m_currentViewport m then (m, updateDescr)
      else (let tiles = GetTileKeys env screen
            in if MustDropAllTiles env m screen
               then (let m1 = fold CancelTileInfo (m_tileInfos m) m;
                         m2 = m1\<lparr>m_tileInfos := []\<rparr>;
                         m3 = fold PushTaskBackForTileKey tiles m2
                     in (m3\<lparr>m_currentViewport := screen\<rparr>, updateDescr @ [DropAll]))
               else (let outdatedTiles =
                           set_difference
                             (\<lambda>l r. TileKey_less (GetTileKey (m_heap m) l) r)
                             (\<lambda>l r. TileKey_less l (GetTileKey (m_heap m) r))
                             (m_tileInfos m) tiles;
                         inputRects =
                           set_difference
                             (\<lambda>l r. TileKey_less l (GetTileKey (m_heap m) r))
                             (\<lambda>l r. TileKey_less (GetTileKey (m_heap m) l) r)
                             tiles (m_tileInfos m);
                         m1 = fold ClearTileInfo outdatedTiles m;
                         outdatedTileKeys = map (GetTileKey (m_heap m1)) outdatedTiles;
                         m2 = fold PushTaskFront (m_tileInfos m1) m1;
                         m3 = fold PushTaskBackForTileKey inputRects m2
                     in (m3\<lparr>m_currentViewport := screen\<rparr>,
                         updateDescr @ [DropTiles outdatedTileKeys]))))"

text \<open>What \<^verbatim>\<open>new TileInfo(tileKey)\<close> builds, and the keys of the live set, in its order.\<close>

definition TileInfo_new :: "TileKey \<Rightarrow> TileInfo" where
  "TileInfo_new k = \<lparr>m_key = k, m_isCanceled = False\<rparr>"

definition LiveTileKeys :: "'s ReadManager \<Rightarrow> TileKey list" where
  "LiveTileKeys m = map (GetTileKey (m_heap m)) (m_tileInfos m)"

text \<open>
  The live set as the manager keeps it: increasing by key (so at most one \<^verbatim>\<open>TileInfo\<close>
  per key), every pointer that of an object of the store, none cancelled. And the property
  of claim C6: every live key is a tile of the current viewport.
\<close>

definition LiveTileSet_ok :: "'s ReadManager \<Rightarrow> bool" where
  "LiveTileSet_ok m =
     (sorted_wrt (LessByTileKey (m_heap m)) (m_tileInfos m) \<and>
      list_all (\<lambda>p. p < length (m_heap m) \<and> \<not> m_isCanceled (m_heap m ! p)) (m_tileInfos m))"

definition LiveTiles_in_viewport :: "('s, 'a, 'd) ScreenEnv \<Rightarrow> 's ReadManager \<Rightarrow> bool" where
  "LiveTiles_in_viewport env m =
     (LiveTileSet_ok m \<and>
      list_all (\<lambda>k. k \<in> set (GetTileKeys env (m_currentViewport m))) (LiveTileKeys m))"

text \<open>A sequence of updates, each on the manager and the descriptor the last one left.\<close>

fun updates ::
  "('s, 'a, 'd) ScreenEnv \<Rightarrow> 's list \<Rightarrow> 's ReadManager \<times> DescriptorCall list \<Rightarrow>
   's ReadManager \<times> DescriptorCall list" where
  "updates env [] md = md"
| "updates env (screen # screens) md =
     updates env screens (UpdateCoverage env screen (snd md) (fst md))"

text \<open>
  An instance for the examples: a double is a real number with the exact operations, a
  screen is its tile scale and an axis-aligned rectangle, which is both its global and
  its clip rectangle; two rectangles intersect when their interiors overlap, so that an
  empty rectangle intersects nothing.
\<close>

definition ex_IsIntersect :: "real RectD \<Rightarrow> real RectD \<Rightarrow> bool" where
  "ex_IsIntersect a b =
     (fst a < fst (snd (snd b)) \<and> fst b < fst (snd (snd a)) \<and>
      fst (snd a) < snd (snd (snd b)) \<and> fst (snd b) < snd (snd (snd a)))"

definition ex_env :: "(int \<times> real RectD, real RectD, real) ScreenEnv" where
  "ex_env = \<lparr>ScreenBase_default = (0, (1, 1, 0, 0)),
             GetTileScaleBase = fst, GlobalRect = snd, ClipRect = snd,
             IsIntersect = ex_IsIntersect, AnyRectD = (\<lambda>r. r),
             MercatorBounds_minX = -512, MercatorBounds_maxX = 512,
             double_sub = (\<lambda>x y. x - y), double_div = (\<lambda>x y. x / y),
             double_mul = (\<lambda>x y. x * y), double_add = (\<lambda>x y. x + y),
             double_of_int = of_int, floor_to_int = floor, ceil_to_int = ceiling,
             shift_undefined = (\<lambda>n. 0)\<rparr>"

text \<open>At scale 10 a tile is a unit square. Three viewports at scale 10 and one at 11.\<close>

definition ex_V1 :: "int \<times> real RectD" where
  "ex_V1 = (10, (1/4, 1/4, 7/4, 3/4))"

definition ex_V2 :: "int \<times> real RectD" where
  "ex_V2 = (10, (5/4, 1/4, 11/4, 3/4))"


text \<open>The first update with \<open>ex_V1\<close> of a new manager, and the update with \<open>ex_V2\<close> after it.\<close>

definition ex_r1 :: "(int \<times> real RectD) ReadManager \<times> DescriptorCall list" where
  "ex_r1 = UpdateCoverage ex_env ex_V1 [] (ReadManager_init ex_env)"

definition ex_r2 :: "(int \<times> real RectD) ReadManager \<times> DescriptorCall list" where
  "ex_r2 = UpdateCoverage ex_env ex_V2 (snd ex_r1) (fst ex_r1)"

section \<open>The scale-to-index mapping: theorems\<close>

lemma slo_none:
  "\<forall>j. i \<le> j \<and> j < n \<longrightarrow> \<not> s \<le> GetScale li j \<Longrightarrow>
   scale_loop_offsets li s offs n i = Inr (-1)"
proof (induction li s offs n i rule: scale_loop_offsets.induct)
  case (1 li scale offsets n i)
  show ?case
  proof (cases "i < n")
    case True
    with 1 show ?thesis
      by (subst scale_loop_offsets.simps) auto
  next
    case False
    then show ?thesis by (subst scale_loop_offsets.simps) simp
  qed
qed

lemma slo_first:
  "i \<le> k \<Longrightarrow> k < n \<Longrightarrow> s \<le> GetScale li k \<Longrightarrow>
   \<forall>j. i \<le> j \<and> j < k \<longrightarrow> \<not> s \<le> GetScale li j \<Longrightarrow>
   scale_loop_offsets li s offs n i =
     (if nat k < length offs
      then Inr (if offs ! nat k \<noteq> kInvalidOffset then k else -1)
      else Inl OutOfRange)"
proof (induction li s offs n i rule: scale_loop_offsets.induct)
  case (1 li scale offsets n i)
  show ?case
  proof (cases "i = k")
    case True
    with 1 show ?thesis by (subst scale_loop_offsets.simps) simp
  next
    case False
    with 1 have lt: "i < k" "i < n" "\<not> scale \<le> GetScale li i" by auto
    with 1 show ?thesis
      by (subst scale_loop_offsets.simps) auto
  qed
qed

lemma best_loop_char:
  "-1 \<le> ind \<Longrightarrow> ind < int (length offs) \<Longrightarrow>
   -1 \<le> best_loop offs ind \<and> best_loop offs ind \<le> ind \<and>
   (0 \<le> best_loop offs ind \<longrightarrow> offs ! nat (best_loop offs ind) \<noteq> kInvalidOffset) \<and>
   (\<forall>j. best_loop offs ind < j \<and> j \<le> ind \<longrightarrow> offs ! nat j = kInvalidOffset)"
proof (induction offs ind rule: best_loop.induct)
  case (1 offsets ind)
  show ?case
  proof (cases "ind \<ge> 0 \<and> offsets ! nat ind = kInvalidOffset")
    case True
    with 1 have IH: "-1 \<le> best_loop offsets (ind - 1) \<and> best_loop offsets (ind - 1) \<le> ind - 1 \<and>
   (0 \<le> best_loop offsets (ind - 1) \<longrightarrow> offsets ! nat (best_loop offsets (ind - 1)) \<noteq> kInvalidOffset) \<and>
   (\<forall>j. best_loop offsets (ind - 1) < j \<and> j \<le> ind - 1 \<longrightarrow> offsets ! nat j = kInvalidOffset)"
      by auto
    have eq: "best_loop offsets ind = best_loop offsets (ind - 1)"
      using True by (subst best_loop.simps) simp
    have "\<And>j. best_loop offsets (ind - 1) < j \<Longrightarrow> j \<le> ind \<Longrightarrow> offsets ! nat j = kInvalidOffset"
    proof -
      fix j assume a: "best_loop offsets (ind - 1) < j" "j \<le> ind"
      show "offsets ! nat j = kInvalidOffset"
      proof (cases "j = ind")
        case True
        then show ?thesis using \<open>ind \<ge> 0 \<and> offsets ! nat ind = kInvalidOffset\<close> by simp
      next
        case False
        with a IH show ?thesis by auto
      qed
    qed
    with IH eq show ?thesis by auto
  next
    case False
    then have eq: "best_loop offsets ind = ind"
      by (subst best_loop.simps) auto
    with False 1 show ?thesis by auto
  qed
qed

lemma worst_loop_char:
  "0 \<le> ind \<Longrightarrow> ind \<le> int (length offs) \<Longrightarrow>
   ind \<le> worst_loop offs ind \<and> worst_loop offs ind \<le> int (length offs) \<and>
   (worst_loop offs ind < int (length offs) \<longrightarrow> offs ! nat (worst_loop offs ind) \<noteq> kInvalidOffset) \<and>
   (\<forall>j. ind \<le> j \<and> j < worst_loop offs ind \<longrightarrow> offs ! nat j = kInvalidOffset)"
proof (induction offs ind rule: worst_loop.induct)
  case (1 offsets ind)
  show ?case
  proof (cases "ind < int (length offsets) \<and> offsets ! nat ind = kInvalidOffset")
    case True
    with 1 have IH: "ind + 1 \<le> worst_loop offsets (ind + 1) \<and> worst_loop offsets (ind + 1) \<le> int (length offsets) \<and>
   (worst_loop offsets (ind + 1) < int (length offsets) \<longrightarrow> offsets ! nat (worst_loop offsets (ind + 1)) \<noteq> kInvalidOffset) \<and>
   (\<forall>j. ind + 1 \<le> j \<and> j < worst_loop offsets (ind + 1) \<longrightarrow> offsets ! nat j = kInvalidOffset)"
      by auto
    have eq: "worst_loop offsets ind = worst_loop offsets (ind + 1)"
      using True by (subst worst_loop.simps) simp
    have "\<And>j. ind \<le> j \<Longrightarrow> j < worst_loop offsets (ind + 1) \<Longrightarrow> offsets ! nat j = kInvalidOffset"
    proof -
      fix j assume a: "ind \<le> j" "j < worst_loop offsets (ind + 1)"
      show "offsets ! nat j = kInvalidOffset"
      proof (cases "j = ind")
        case True
        then show ?thesis using \<open>ind < int (length offsets) \<and> offsets ! nat ind = kInvalidOffset\<close> by simp
      next
        case False
        with a IH show ?thesis by auto
      qed
    qed
    with IH eq show ?thesis by auto
  next
    case False
    then have eq: "worst_loop offsets ind = ind"
      by (subst worst_loop.simps) auto
    with False 1 show ?thesis by auto
  qed
qed

lemma clamp_min: "(if scale0 > lastScale then lastScale else scale0) = min scale0 (lastScale::int)"
  by (simp add: min_def)

lemma GetScaleIndex_offsets_default:
  "min scale (GetLastScale li) \<noteq> BEST_GEOMETRY \<Longrightarrow> min scale (GetLastScale li) \<noteq> WORST_GEOMETRY \<Longrightarrow>
   GetScaleIndex_offsets li scale offs =
     scale_loop_offsets li (min scale (GetLastScale li)) offs (GetScalesCount li) 0"
  unfolding GetScaleIndex_offsets_def clamp_min Let_def by simp

text \<open>
  Claim C3, as the code has it. For a scale whose clamped value is no sentinel, the
  lookup stops at the smallest index \<open>k\<close> of the container whose scale is not below
  the clamped scale: it returns \<open>k\<close> when \<open>offsets[k]\<close> is present and "not found"
  (\<open>-1\<close>) when it is absent, without looking at later indices; it returns "not found"
  when no index has such a scale. The sentinel \<open>BEST_GEOMETRY\<close> returns the highest
  populated index and \<open>WORST_GEOMETRY\<close> the lowest one (\<open>-1\<close> when no offset is
  populated).
\<close>

theorem GetScaleIndex_offsets_first_match:
  "(min scale (GetLastScale li) \<noteq> BEST_GEOMETRY \<and> min scale (GetLastScale li) \<noteq> WORST_GEOMETRY \<longrightarrow>
      ((\<forall>j < nat (GetScalesCount li). \<not> min scale (GetLastScale li) \<le> GetScale li (int j)) \<longrightarrow>
         GetScaleIndex_offsets li scale offs = Inr (-1)) \<and>
      (\<forall>k < nat (GetScalesCount li).
         min scale (GetLastScale li) \<le> GetScale li (int k) \<and>
         (\<forall>j < k. \<not> min scale (GetLastScale li) \<le> GetScale li (int j)) \<longrightarrow>
         GetScaleIndex_offsets li scale offs =
           (if k < length offs
            then Inr (if offs ! k \<noteq> kInvalidOffset then int k else -1)
            else Inl OutOfRange))) \<and>
   (BEST_GEOMETRY \<le> GetLastScale li \<longrightarrow>
      (\<exists>r. GetScaleIndex_offsets li BEST_GEOMETRY offs = Inr r \<and>
           (if \<forall>j < length offs. offs ! j = kInvalidOffset then r = -1
            else 0 \<le> r \<and> nat r < length offs \<and> offs ! nat r \<noteq> kInvalidOffset \<and>
                 (\<forall>j < length offs. nat r < j \<longrightarrow> offs ! j = kInvalidOffset)))) \<and>
   (WORST_GEOMETRY \<le> GetLastScale li \<longrightarrow>
      (\<exists>r. GetScaleIndex_offsets li WORST_GEOMETRY offs = Inr r \<and>
           (if \<forall>j < length offs. offs ! j = kInvalidOffset then r = -1
            else 0 \<le> r \<and> nat r < length offs \<and> offs ! nat r \<noteq> kInvalidOffset \<and>
                 (\<forall>j < nat r. offs ! j = kInvalidOffset))))"
proof (intro conjI impI allI)
  assume ns: "min scale (GetLastScale li) \<noteq> BEST_GEOMETRY \<and> min scale (GetLastScale li) \<noteq> WORST_GEOMETRY"
  assume none: "\<forall>j < nat (GetScalesCount li). \<not> min scale (GetLastScale li) \<le> GetScale li (int j)"
  have "\<forall>j. 0 \<le> j \<and> j < GetScalesCount li \<longrightarrow> \<not> min scale (GetLastScale li) \<le> GetScale li j"
  proof (intro allI impI)
    fix j assume "0 \<le> j \<and> j < GetScalesCount li"
    then have "nat j < nat (GetScalesCount li)" "int (nat j) = j" by auto
    with none show "\<not> min scale (GetLastScale li) \<le> GetScale li j" by metis
  qed
  then have "scale_loop_offsets li (min scale (GetLastScale li)) offs (GetScalesCount li) 0 = Inr (-1)"
    by (rule slo_none)
  with ns show "GetScaleIndex_offsets li scale offs = Inr (-1)"
    by (simp add: GetScaleIndex_offsets_default)
next
  fix k
  assume ns: "min scale (GetLastScale li) \<noteq> BEST_GEOMETRY \<and> min scale (GetLastScale li) \<noteq> WORST_GEOMETRY"
  assume k: "k < nat (GetScalesCount li)"
  assume h: "min scale (GetLastScale li) \<le> GetScale li (int k) \<and>
         (\<forall>j < k. \<not> min scale (GetLastScale li) \<le> GetScale li (int j))"
  have before: "\<forall>j. 0 \<le> j \<and> j < int k \<longrightarrow> \<not> min scale (GetLastScale li) \<le> GetScale li j"
  proof (intro allI impI)
    fix j assume "0 \<le> j \<and> j < int k"
    then have "nat j < k" "int (nat j) = j" by auto
    with h show "\<not> min scale (GetLastScale li) \<le> GetScale li j" by metis
  qed
  have "scale_loop_offsets li (min scale (GetLastScale li)) offs (GetScalesCount li) 0 =
     (if nat (int k) < length offs
      then Inr (if offs ! nat (int k) \<noteq> kInvalidOffset then int k else -1)
      else Inl OutOfRange)"
    using k h before by (intro slo_first) auto
  with ns show "GetScaleIndex_offsets li scale offs =
           (if k < length offs
            then Inr (if offs ! k \<noteq> kInvalidOffset then int k else -1)
            else Inl OutOfRange)"
    by (simp add: GetScaleIndex_offsets_default)
next
  assume b: "BEST_GEOMETRY \<le> GetLastScale li"
  let ?r = "best_loop offs (int (length offs) - 1)"
  have c: "-1 \<le> ?r \<and> ?r \<le> int (length offs) - 1 \<and>
   (0 \<le> ?r \<longrightarrow> offs ! nat ?r \<noteq> kInvalidOffset) \<and>
   (\<forall>j. ?r < j \<and> j \<le> int (length offs) - 1 \<longrightarrow> offs ! nat j = kInvalidOffset)"
    by (rule best_loop_char) auto
  have eq: "GetScaleIndex_offsets li BEST_GEOMETRY offs = Inr (if ?r \<ge> 0 then ?r else -1)"
    using b c unfolding GetScaleIndex_offsets_def clamp_min Let_def by simp
  show "\<exists>r. GetScaleIndex_offsets li BEST_GEOMETRY offs = Inr r \<and>
           (if \<forall>j < length offs. offs ! j = kInvalidOffset then r = -1
            else 0 \<le> r \<and> nat r < length offs \<and> offs ! nat r \<noteq> kInvalidOffset \<and>
                 (\<forall>j < length offs. nat r < j \<longrightarrow> offs ! j = kInvalidOffset))"
  proof (cases "?r \<ge> 0")
    case True
    with c have p: "nat ?r < length offs" "offs ! nat ?r \<noteq> kInvalidOffset" by auto
    have after: "\<forall>j < length offs. nat ?r < j \<longrightarrow> offs ! j = kInvalidOffset"
    proof (intro allI impI)
      fix j assume "j < length offs" "nat ?r < j"
      then have "?r < int j \<and> int j \<le> int (length offs) - 1" using True by auto
      with c have "offs ! nat (int j) = kInvalidOffset" by blast
      then show "offs ! j = kInvalidOffset" by simp
    qed
    from p have "\<not> (\<forall>j < length offs. offs ! j = kInvalidOffset)" by blast
    with eq True p after show ?thesis by auto
  next
    case False
    with c have m: "?r = -1" by auto
    have "\<forall>j < length offs. offs ! j = kInvalidOffset"
    proof (intro allI impI)
      fix j assume "j < length offs"
      then have "?r < int j \<and> int j \<le> int (length offs) - 1" using m by auto
      with c have "offs ! nat (int j) = kInvalidOffset" by blast
      then show "offs ! j = kInvalidOffset" by simp
    qed
    with eq False show ?thesis by auto
  qed
next
  assume w: "WORST_GEOMETRY \<le> GetLastScale li"
  let ?r = "worst_loop offs 0"
  have c: "0 \<le> ?r \<and> ?r \<le> int (length offs) \<and>
   (?r < int (length offs) \<longrightarrow> offs ! nat ?r \<noteq> kInvalidOffset) \<and>
   (\<forall>j. 0 \<le> j \<and> j < ?r \<longrightarrow> offs ! nat j = kInvalidOffset)"
    by (rule worst_loop_char) auto
  have eq: "GetScaleIndex_offsets li WORST_GEOMETRY offs = Inr (if ?r < int (length offs) then ?r else -1)"
    using w c unfolding GetScaleIndex_offsets_def clamp_min Let_def
    by (simp add: BEST_GEOMETRY_def WORST_GEOMETRY_def)
  show "\<exists>r. GetScaleIndex_offsets li WORST_GEOMETRY offs = Inr r \<and>
           (if \<forall>j < length offs. offs ! j = kInvalidOffset then r = -1
            else 0 \<le> r \<and> nat r < length offs \<and> offs ! nat r \<noteq> kInvalidOffset \<and>
                 (\<forall>j < nat r. offs ! j = kInvalidOffset))"
  proof (cases "?r < int (length offs)")
    case True
    with c have p: "nat ?r < length offs" "offs ! nat ?r \<noteq> kInvalidOffset" by auto
    have before: "\<forall>j < nat ?r. offs ! j = kInvalidOffset"
    proof (intro allI impI)
      fix j assume "j < nat ?r"
      then have "0 \<le> int j \<and> int j < ?r" by auto
      with c have "offs ! nat (int j) = kInvalidOffset" by blast
      then show "offs ! j = kInvalidOffset" by simp
    qed
    from p have "\<not> (\<forall>j < length offs. offs ! j = kInvalidOffset)" by blast
    with eq True c p before show ?thesis by auto
  next
    case False
    with c have m: "?r = int (length offs)" by auto
    have "\<forall>j < length offs. offs ! j = kInvalidOffset"
    proof (intro allI impI)
      fix j assume "j < length offs"
      then have "0 \<le> int j \<and> int j < ?r" using m by auto
      with c have "offs ! nat (int j) = kInvalidOffset" by blast
      then show "offs ! j = kInvalidOffset" by simp
    qed
    with eq False show ?thesis by auto
  qed
qed

lemma ex_offsets_nth:
  "ex_offsets ! 0 = kInvalidOffset" "ex_offsets ! 1 \<noteq> kInvalidOffset"
  "ex_offsets ! Suc 0 \<noteq> kInvalidOffset"
  "ex_offsets ! 2 \<noteq> kInvalidOffset" "ex_offsets ! 3 = kInvalidOffset" "length ex_offsets = 4"
  by (simp_all add: ex_offsets_def kInvalidOffset_def)

lemma less_4_cases: "(n::nat) < 4 \<Longrightarrow> n = 0 \<or> n = 1 \<or> n = 2 \<or> n = 3"
  by arith

text \<open>
  Claim C3, witness: the four scales 10, 12, 14, 17 and the offsets of indices 1 and 2
  populated.
\<close>

theorem GetScaleIndex_offsets_first_match_witness:
  "GetScaleIndex_offsets ex_li 13 ex_offsets = Inr 2 \<and>
   GetScaleIndex_offsets ex_li 9 ex_offsets = Inr (-1) \<and>
   GetScaleIndex_offsets ex_li 18 [] = Inl OutOfRange \<and>
   GetScaleIndex_offsets (ex_li\<lparr>GetLastScale := 18\<rparr>) 18 ex_offsets = Inr (-1) \<and>
   GetScaleIndex_offsets ex_li BEST_GEOMETRY ex_offsets = Inr 2 \<and>
   GetScaleIndex_offsets ex_li WORST_GEOMETRY ex_offsets = Inr 1 \<and>
   GetScaleIndex_offsets ex_li BEST_GEOMETRY [kInvalidOffset] = Inr (-1)"
proof -
  note none = GetScaleIndex_offsets_first_match
    [THEN conjunct1, rule_format, THEN conjunct1, rule_format]
  note first = GetScaleIndex_offsets_first_match
    [THEN conjunct1, rule_format, THEN conjunct2, rule_format]
  note best = GetScaleIndex_offsets_first_match [THEN conjunct2, THEN conjunct1, rule_format]
  note worst = GetScaleIndex_offsets_first_match [THEN conjunct2, THEN conjunct2, rule_format]
  have sent: "BEST_GEOMETRY \<le> GetLastScale ex_li" "WORST_GEOMETRY \<le> GetLastScale ex_li"
    by (simp_all add: ex_li_def BEST_GEOMETRY_def WORST_GEOMETRY_def)
  have a: "min 13 (GetLastScale ex_li) \<noteq> BEST_GEOMETRY \<and> min 13 (GetLastScale ex_li) \<noteq> WORST_GEOMETRY"
    by (simp add: ex_li_def BEST_GEOMETRY_def WORST_GEOMETRY_def)
  have a2: "2 < nat (GetScalesCount ex_li)" by (simp add: ex_li_def)
  have a3: "min 13 (GetLastScale ex_li) \<le> GetScale ex_li (int 2) \<and>
      (\<forall>j < 2. \<not> min 13 (GetLastScale ex_li) \<le> GetScale ex_li (int j))"
    by (simp add: ex_li_def numeral_2_eq_2 All_less_Suc)
  have c1: "GetScaleIndex_offsets ex_li 13 ex_offsets = Inr 2"
    using first [where scale = 13 and li = ex_li and k = 2 and offs = ex_offsets, OF a a2 a3]
    by (simp add: ex_offsets_nth)
  have b: "min 9 (GetLastScale ex_li) \<noteq> BEST_GEOMETRY \<and> min 9 (GetLastScale ex_li) \<noteq> WORST_GEOMETRY"
    by (simp add: ex_li_def BEST_GEOMETRY_def WORST_GEOMETRY_def)
  have b2: "0 < nat (GetScalesCount ex_li)" by (simp add: ex_li_def)
  have b3: "min 9 (GetLastScale ex_li) \<le> GetScale ex_li (int 0) \<and>
      (\<forall>j < 0. \<not> min 9 (GetLastScale ex_li) \<le> GetScale ex_li (int j))"
    by (simp add: ex_li_def)
  have c2: "GetScaleIndex_offsets ex_li 9 ex_offsets = Inr (-1)"
    using first [where scale = 9 and li = ex_li and k = 0 and offs = ex_offsets, OF b b2 b3]
    by (simp add: ex_offsets_nth)
  have d: "min 18 (GetLastScale ex_li) \<noteq> BEST_GEOMETRY \<and> min 18 (GetLastScale ex_li) \<noteq> WORST_GEOMETRY"
    by (simp add: ex_li_def BEST_GEOMETRY_def WORST_GEOMETRY_def)
  have d2: "3 < nat (GetScalesCount ex_li)" by (simp add: ex_li_def)
  have d3: "min 18 (GetLastScale ex_li) \<le> GetScale ex_li (int 3) \<and>
      (\<forall>j < 3. \<not> min 18 (GetLastScale ex_li) \<le> GetScale ex_li (int j))"
    by (simp add: ex_li_def numeral_3_eq_3 All_less_Suc)
  have c3: "GetScaleIndex_offsets ex_li 18 [] = Inl OutOfRange"
    using first [where scale = 18 and li = ex_li and k = 3 and offs = "[]", OF d d2 d3]
    by simp
  let ?li = "ex_li\<lparr>GetLastScale := 18\<rparr>"
  have e: "min 18 (GetLastScale ?li) \<noteq> BEST_GEOMETRY \<and> min 18 (GetLastScale ?li) \<noteq> WORST_GEOMETRY"
    by (simp add: ex_li_def BEST_GEOMETRY_def WORST_GEOMETRY_def)
  have e2: "\<And>j. j < nat (GetScalesCount ?li) \<Longrightarrow> \<not> min 18 (GetLastScale ?li) \<le> GetScale ?li (int j)"
  proof -
    fix j assume "j < nat (GetScalesCount ?li)"
    then have "j < 4" by (simp add: ex_li_def)
    then have "j = 0 \<or> j = 1 \<or> j = 2 \<or> j = 3" by (rule less_4_cases)
    then show "\<not> min 18 (GetLastScale ?li) \<le> GetScale ?li (int j)"
      by (auto simp: ex_li_def)
  qed
  have c4: "GetScaleIndex_offsets ?li 18 ex_offsets = Inr (-1)"
    using none [where scale = 18 and li = ?li and offs = ex_offsets, OF e e2] by simp
  have pop: "\<not> (\<forall>j < length ex_offsets. ex_offsets ! j = kInvalidOffset)"
  proof
    assume "\<forall>j < length ex_offsets. ex_offsets ! j = kInvalidOffset"
    then have "ex_offsets ! 1 = kInvalidOffset" by (simp add: ex_offsets_nth)
    then show False by (simp add: ex_offsets_nth)
  qed
  obtain r where r: "GetScaleIndex_offsets ex_li BEST_GEOMETRY ex_offsets = Inr r"
    "0 \<le> r" "nat r < length ex_offsets" "ex_offsets ! nat r \<noteq> kInvalidOffset"
    "\<forall>j < length ex_offsets. nat r < j \<longrightarrow> ex_offsets ! j = kInvalidOffset"
    using best [where li = ex_li and offs = ex_offsets, OF sent(1)] pop by auto
  from r(3) have "nat r = 0 \<or> nat r = 1 \<or> nat r = 2 \<or> nat r = 3"
    by (intro less_4_cases) (simp add: ex_offsets_nth)
  then have "nat r = 2"
  proof (elim disjE)
    assume "nat r = 0" with r(4) show ?thesis by (simp add: ex_offsets_nth)
  next
    assume "nat r = 1"
    with r(5) have "ex_offsets ! 2 = kInvalidOffset" by (simp add: ex_offsets_nth)
    then show ?thesis by (simp add: ex_offsets_nth)
  next
    assume "nat r = 2" then show ?thesis .
  next
    assume "nat r = 3" with r(4) show ?thesis by (simp add: ex_offsets_nth)
  qed
  with r have c5: "GetScaleIndex_offsets ex_li BEST_GEOMETRY ex_offsets = Inr 2" by simp
  obtain w where w: "GetScaleIndex_offsets ex_li WORST_GEOMETRY ex_offsets = Inr w"
    "0 \<le> w" "nat w < length ex_offsets" "ex_offsets ! nat w \<noteq> kInvalidOffset"
    "\<forall>j < nat w. ex_offsets ! j = kInvalidOffset"
    using worst [where li = ex_li and offs = ex_offsets, OF sent(2)] pop by auto
  from w(3) have "nat w = 0 \<or> nat w = 1 \<or> nat w = 2 \<or> nat w = 3"
    by (intro less_4_cases) (simp add: ex_offsets_nth)
  then have "nat w = 1"
  proof (elim disjE)
    assume "nat w = 0" with w(4) show ?thesis by (simp add: ex_offsets_nth)
  next
    assume "nat w = 1" then show ?thesis .
  next
    assume "nat w = 2"
    with w(5) have "ex_offsets ! 1 = kInvalidOffset" by simp
    then show ?thesis by (simp add: ex_offsets_nth)
  next
    assume "nat w = 3" with w(4) show ?thesis by (simp add: ex_offsets_nth)
  qed
  with w have c6: "GetScaleIndex_offsets ex_li WORST_GEOMETRY ex_offsets = Inr 1" by simp
  have c7: "GetScaleIndex_offsets ex_li BEST_GEOMETRY [kInvalidOffset] = Inr (-1)"
    using best [where li = ex_li and offs = "[kInvalidOffset]", OF sent(1)] by auto
  from c1 c2 c3 c4 c5 c6 c7 show ?thesis by blast
qed

text \<open>
  Claim C3 as stated fails: with only the offsets of indices 2 and 3 populated, scale 9
  stops at index 0, whose offset is absent, and the code answers "not found"; the
  smallest index with a sufficient scale and a present offset is 2.
\<close>

theorem GetScaleIndex_offsets_counterexample:
  "GetScaleIndex_offsets ex_li 9 [kInvalidOffset, kInvalidOffset, 5, 9] = Inr (-1) \<and>
   spec_scale_index ex_li 9 [kInvalidOffset, kInvalidOffset, 5, 9] = 2"
  by (simp add: GetScaleIndex_offsets_def ex_li_def BEST_GEOMETRY_def WORST_GEOMETRY_def
      scale_loop_offsets.simps kInvalidOffset_def spec_scale_index_def upt_conv_Cons)

section \<open>The staged parser: flags, reset and layer\<close>

text \<open>A stage that returns has set its flag.\<close>

lemma ParseTypes_parsed: "ParseTypes ext f = Inr f' \<Longrightarrow> m_parsed_m_types f'"
  by (auto simp: ParseTypes_def split: if_splits sum.splits prod.splits)

lemma ParseCommon_parsed: "ParseCommon ext f = Inr f' \<Longrightarrow> m_parsed_m_common f'"
  by (auto simp: ParseCommon_def Let_def split: if_splits option.splits sum.splits)

lemma ParseHeader2_parsed: "ParseHeader2 ext f = Inr f' \<Longrightarrow> m_parsed_m_header2 f'"
  by (auto simp: ParseHeader2_def Let_def split: if_splits option.splits sum.splits prod.splits)

lemma ParseGeometry_parsed: "ParseGeometry ext s f = Inr (sz, f') \<Longrightarrow> m_parsed_m_points f'"
  by (auto simp: ParseGeometry_def Let_def split: if_splits option.splits sum.splits prod.splits)

lemma ParseTriangles_parsed: "ParseTriangles ext s f = Inr (sz, f') \<Longrightarrow> m_parsed_m_triangles f'"
  by (auto simp: ParseTriangles_def Let_def split: if_splits option.splits sum.splits prod.splits)

text \<open>
  Claim C7. A call of \<^verbatim>\<open>ParseGeometry(s)\<close> that returns leaves a feature on which a second
  \<^verbatim>\<open>ParseGeometry(s)\<close> returns at once, with the feature unchanged (the same geometry
  and parse state) and size 0; the same holds of \<^verbatim>\<open>ParseTriangles\<close>, \<^verbatim>\<open>ParseHeader2\<close>,
  \<^verbatim>\<open>ParseCommon\<close> and \<^verbatim>\<open>ParseTypes\<close>: each stage is guarded by its parsed flag.
\<close>

theorem ParseGeometry_idempotent:
  "(\<forall>sz f'. ParseGeometry ext s f = Inr (sz, f') \<longrightarrow> ParseGeometry ext s f' = Inr (0, f')) \<and>
   (\<forall>sz f'. ParseTriangles ext s f = Inr (sz, f') \<longrightarrow> ParseTriangles ext s f' = Inr (0, f')) \<and>
   (\<forall>f'. ParseHeader2 ext f = Inr f' \<longrightarrow> ParseHeader2 ext f' = Inr f') \<and>
   (\<forall>f'. ParseCommon ext f = Inr f' \<longrightarrow> ParseCommon ext f' = Inr f') \<and>
   (\<forall>f'. ParseTypes ext f = Inr f' \<longrightarrow> ParseTypes ext f' = Inr f')"
proof (intro conjI allI impI)
  fix sz f' assume "ParseGeometry ext s f = Inr (sz, f')"
  then have "m_parsed_m_points f'" by (rule ParseGeometry_parsed)
  then show "ParseGeometry ext s f' = Inr (0, f')" by (simp add: ParseGeometry_def)
next
  fix sz f' assume "ParseTriangles ext s f = Inr (sz, f')"
  then have "m_parsed_m_triangles f'" by (rule ParseTriangles_parsed)
  then show "ParseTriangles ext s f' = Inr (0, f')" by (simp add: ParseTriangles_def)
next
  fix f' assume "ParseHeader2 ext f = Inr f'"
  then have "m_parsed_m_header2 f'" by (rule ParseHeader2_parsed)
  then show "ParseHeader2 ext f' = Inr f'" by (simp add: ParseHeader2_def)
next
  fix f' assume "ParseCommon ext f = Inr f'"
  then have "m_parsed_m_common f'" by (rule ParseCommon_parsed)
  then show "ParseCommon ext f' = Inr f'" by (simp add: ParseCommon_def)
next
  fix f' assume "ParseTypes ext f = Inr f'"
  then have "m_parsed_m_types f'" by (rule ParseTypes_parsed)
  then show "ParseTypes ext f' = Inr f'" by (simp add: ParseTypes_def)
qed

text \<open>
  Claim C7, witness: every stage returns on the inner line of the examples, and returns
  the same feature when called again.
\<close>

theorem ParseGeometry_idempotent_witness:
  "\<exists>g t h c y.
     ParseGeometry ex_ext 13 ex_inner = Inr (0, g) \<and> m_points g = [10, 20, 30, 50] \<and>
     ParseGeometry ex_ext 13 g = Inr (0, g) \<and>
     ParseTriangles ex_ext 13 ex_inner = Inr (0, t) \<and> ParseTriangles ex_ext 13 t = Inr (0, t) \<and>
     ParseHeader2 ex_ext ex_inner = Inr h \<and> ParseHeader2 ex_ext h = Inr h \<and>
     ParseCommon ex_ext ex_inner = Inr c \<and> ParseCommon ex_ext c = Inr c \<and>
     ParseTypes ex_ext ex_inner = Inr y \<and> ParseTypes ex_ext y = Inr y"
proof -
  have "case ParseGeometry ex_ext 13 ex_inner of
          Inl e \<Rightarrow> False | Inr (sz, g) \<Rightarrow> sz = 0 \<and> m_points g = [10, 20, 30, 50]"
    by code_simp
  then obtain g where g: "ParseGeometry ex_ext 13 ex_inner = Inr (0, g)"
    "m_points g = [10, 20, 30, 50]"
    by (auto split: sum.splits)
  have "case ParseTriangles ex_ext 13 ex_inner of Inl e \<Rightarrow> False | Inr (sz, t) \<Rightarrow> sz = 0"
    by code_simp
  then obtain t where t: "ParseTriangles ex_ext 13 ex_inner = Inr (0, t)"
    by (auto split: sum.splits)
  have "case ParseHeader2 ex_ext ex_inner of Inl e \<Rightarrow> False | Inr h \<Rightarrow> True"
    by code_simp
  then obtain h where h: "ParseHeader2 ex_ext ex_inner = Inr h"
    by (auto split: sum.splits)
  have "case ParseCommon ex_ext ex_inner of Inl e \<Rightarrow> False | Inr c \<Rightarrow> True"
    by code_simp
  then obtain c where c: "ParseCommon ex_ext ex_inner = Inr c"
    by (auto split: sum.splits)
  have "case ParseTypes ex_ext ex_inner of Inl e \<Rightarrow> False | Inr y \<Rightarrow> True"
    by code_simp
  then obtain y where y: "ParseTypes ex_ext ex_inner = Inr y"
    by (auto split: sum.splits)
  note I = ParseGeometry_idempotent [of ex_ext 13 ex_inner]
  from I g(1) have g2: "ParseGeometry ex_ext 13 g = Inr (0, g)" by blast
  from I t have t2: "ParseTriangles ex_ext 13 t = Inr (0, t)" by blast
  from I h have h2: "ParseHeader2 ex_ext h = Inr h" by blast
  from I c have c2: "ParseCommon ex_ext c = Inr c" by blast
  from I y have y2: "ParseTypes ex_ext y = Inr y" by blast
  from g g2 t t2 h h2 c c2 y y2 show ?thesis by blast
qed

text \<open>
  Claim C10. With the has-layer flag of \<^verbatim>\<open>m_header\<close> clear, \<^verbatim>\<open>GetLayer\<close> returns 0 and
  the feature as it was, no stage run. With the flag set it runs \<^verbatim>\<open>ParseCommon\<close>: it
  aborts where that aborts, and otherwise returns the layer stored in the params of the
  feature \<^verbatim>\<open>ParseCommon\<close> leaves, whose common stage is parsed.
\<close>

theorem GetLayer_flag:
  "(m_header f AND HEADER_MASK_HAS_LAYER ext = 0 \<longrightarrow> GetLayer ext f = Inr (0, f)) \<and>
   (m_header f AND HEADER_MASK_HAS_LAYER ext \<noteq> 0 \<longrightarrow>
      (case ParseCommon ext f of
         Inl e \<Rightarrow> GetLayer ext f = Inl e
       | Inr f1 \<Rightarrow> GetLayer ext f = Inr (params_layer ext (m_params f1), f1) \<and>
                  m_parsed_m_common f1))"
  by (auto simp: GetLayer_def ParseCommon_parsed split: sum.splits)

text \<open>
  Claim C10, witness: a line without the flag is left as it was; the line with layer 3
  is parsed through the common stage, not further, and 3 is returned.
\<close>

theorem GetLayer_flag_witness:
  "m_header ex_nolayer AND HEADER_MASK_HAS_LAYER ex_ext = 0 \<and>
   GetLayer ex_ext ex_nolayer = Inr (0, ex_nolayer) \<and>
   m_header ex_inner AND HEADER_MASK_HAS_LAYER ex_ext \<noteq> 0 \<and>
   (\<exists>g. GetLayer ex_ext ex_inner = Inr (3, g) \<and> m_parsed_m_common g \<and>
        \<not> m_parsed_m_header2 g)"
proof -
  have a: "m_header ex_nolayer AND HEADER_MASK_HAS_LAYER ex_ext = 0"
    by (simp add: ex_nolayer_def ex_feature_def ex_ext_def)
  have b: "m_header ex_inner AND HEADER_MASK_HAS_LAYER ex_ext \<noteq> 0"
    by (simp add: ex_inner_def ex_feature_def ex_ext_def)
  have "case ParseCommon ex_ext ex_inner of
          Inl e \<Rightarrow> False
        | Inr c \<Rightarrow> params_layer ex_ext (m_params c) = 3 \<and> \<not> m_parsed_m_header2 c"
    by code_simp
  then obtain c where c: "ParseCommon ex_ext ex_inner = Inr c"
    "params_layer ex_ext (m_params c) = 3" "\<not> m_parsed_m_header2 c"
    by (auto split: sum.splits)
  from GetLayer_flag [of ex_nolayer ex_ext] a
  have l0: "GetLayer ex_ext ex_nolayer = Inr (0, ex_nolayer)" by blast
  from GetLayer_flag [of ex_inner ex_ext] b c
  have "GetLayer ex_ext ex_inner = Inr (3, c) \<and> m_parsed_m_common c" by simp
  with a b l0 c(3) show ?thesis by blast
qed

text \<open>
  Claim C9, as the code has it. On a feature with load info \<^verbatim>\<open>ResetGeometry\<close> clears the
  points, the triangles, the two outer-offset tables, the simplification mask and the
  header2, points and triangles flags, and the limit rect unless the feature is a
  point. On a feature without load info (built from a \<^verbatim>\<open>MapObject\<close>) it changes
  nothing. In both cases the types and common flags, the metadata flags, the types, the
  params (names, house number, layer), the centre, the buffer and the offsets of the
  common and header2 stages are unchanged, as is the limit rect of a point; and on a
  feature whose common stage was parsed \<^verbatim>\<open>ParseCommon\<close> returns at once afterwards.
\<close>

theorem ResetGeometry_frame:
  "(m_loadInfo f = None \<longrightarrow> ResetGeometry ext f = f) \<and>
   (m_loadInfo f \<noteq> None \<longrightarrow>
      m_points (ResetGeometry ext f) = [] \<and>
      m_triangles (ResetGeometry ext f) = [] \<and>
      m_offsets_m_pts (ResetGeometry ext f) = [] \<and>
      m_offsets_m_trg (ResetGeometry ext f) = [] \<and>
      m_ptsSimpMask (ResetGeometry ext f) = 0 \<and>
      \<not> m_parsed_m_header2 (ResetGeometry ext f) \<and>
      \<not> m_parsed_m_points (ResetGeometry ext f) \<and>
      \<not> m_parsed_m_triangles (ResetGeometry ext f) \<and>
      (GetGeomType ext f \<noteq> GeomType_Point \<longrightarrow>
         m_limitRect (ResetGeometry ext f) = RectD_empty ext)) \<and>
   (GetGeomType ext f = GeomType_Point \<longrightarrow>
      m_limitRect (ResetGeometry ext f) = m_limitRect f) \<and>
   m_parsed_m_types (ResetGeometry ext f) = m_parsed_m_types f \<and>
   m_parsed_m_common (ResetGeometry ext f) = m_parsed_m_common f \<and>
   m_parsed_m_metadata (ResetGeometry ext f) = m_parsed_m_metadata f \<and>
   m_parsed_m_metaIds (ResetGeometry ext f) = m_parsed_m_metaIds f \<and>
   m_types (ResetGeometry ext f) = m_types f \<and>
   m_params (ResetGeometry ext f) = m_params f \<and>
   m_center (ResetGeometry ext f) = m_center f \<and>
   m_header (ResetGeometry ext f) = m_header f \<and>
   m_data (ResetGeometry ext f) = m_data f \<and>
   m_loadInfo (ResetGeometry ext f) = m_loadInfo f \<and>
   m_offsets_m_common (ResetGeometry ext f) = m_offsets_m_common f \<and>
   m_offsets_m_header2 (ResetGeometry ext f) = m_offsets_m_header2 f \<and>
   (m_parsed_m_common f \<longrightarrow>
      ParseCommon ext (ResetGeometry ext f) = Inr (ResetGeometry ext f))"
  by (simp add: ResetGeometry_def ParseCommon_def)

text \<open>
  Claim C9, witness: the inner line parsed at scale 13, then reset; and the feature
  built from a \<^verbatim>\<open>MapObject\<close>.
\<close>

theorem ResetGeometry_frame_witness:
  "\<exists>g. ParseGeometry ex_ext 13 ex_inner = Inr (0, g) \<and>
       m_loadInfo g \<noteq> None \<and> m_parsed_m_common g \<and> m_points g = [10, 20, 30, 50] \<and>
       GetGeomType ex_ext g \<noteq> GeomType_Point \<and>
       m_points (ResetGeometry ex_ext g) = [] \<and>
       m_ptsSimpMask (ResetGeometry ex_ext g) = 0 \<and>
       \<not> m_parsed_m_points (ResetGeometry ex_ext g) \<and>
       m_limitRect (ResetGeometry ex_ext g) = RectD_empty ex_ext \<and>
       m_params (ResetGeometry ex_ext g) = 3 \<and>
       ParseCommon ex_ext (ResetGeometry ex_ext g) = Inr (ResetGeometry ex_ext g) \<and>
       m_loadInfo ex_mapobject = None \<and>
       ResetGeometry ex_ext ex_mapobject = ex_mapobject"
proof -
  have "case ParseGeometry ex_ext 13 ex_inner of
          Inl e \<Rightarrow> False
        | Inr (sz, g) \<Rightarrow> sz = 0 \<and> m_points g = [10, 20, 30, 50] \<and> m_params g = 3 \<and>
            m_parsed_m_common g \<and> GetGeomType ex_ext g \<noteq> GeomType_Point \<and>
            m_loadInfo g \<noteq> None"
    by code_simp
  then obtain g where g: "ParseGeometry ex_ext 13 ex_inner = Inr (0, g)"
    "m_points g = [10, 20, 30, 50]" "m_params g = 3" "m_parsed_m_common g"
    "GetGeomType ex_ext g \<noteq> GeomType_Point" "m_loadInfo g \<noteq> None"
    by (auto split: sum.splits)
  have mo: "m_loadInfo ex_mapobject = None" by (simp add: ex_mapobject_def)
  from ResetGeometry_frame [of ex_mapobject ex_ext] mo
  have r: "ResetGeometry ex_ext ex_mapobject = ex_mapobject" by blast
  from ResetGeometry_frame [of g ex_ext] g(3,4,5,6)
  have "m_points (ResetGeometry ex_ext g) = [] \<and>
       m_ptsSimpMask (ResetGeometry ex_ext g) = 0 \<and>
       \<not> m_parsed_m_points (ResetGeometry ex_ext g) \<and>
       m_limitRect (ResetGeometry ex_ext g) = RectD_empty ex_ext \<and>
       m_params (ResetGeometry ex_ext g) = 3 \<and>
       ParseCommon ex_ext (ResetGeometry ex_ext g) = Inr (ResetGeometry ex_ext g)"
    by simp
  with g mo r show ?thesis by blast
qed

text \<open>
  Claim C9 as stated fails on a feature built from a \<^verbatim>\<open>MapObject\<close>: it is parsed past
  the common stage, and \<^verbatim>\<open>ResetGeometry\<close> leaves its points, its limit rect and its
  header2, points and triangles flags in place.
\<close>

theorem ResetGeometry_counterexample:
  "m_parsed_m_types ex_mapobject \<and> m_parsed_m_common ex_mapobject \<and>
   m_points (ResetGeometry ex_ext ex_mapobject) = [1, 2] \<and>
   m_limitRect (ResetGeometry ex_ext ex_mapobject) = Some (1, 2) \<and>
   GetGeomType ex_ext ex_mapobject = GeomType_Line \<and>
   m_parsed_m_header2 (ResetGeometry ex_ext ex_mapobject) \<and>
   m_parsed_m_points (ResetGeometry ex_ext ex_mapobject) \<and>
   m_parsed_m_triangles (ResetGeometry ex_ext ex_mapobject)"
  by (simp add: ResetGeometry_def ex_mapobject_def GetGeomType_def ex_ext_def)

section \<open>Geometry at a requested scale\<close>

text \<open>The two loops of the inner branch, as filters over the intermediate indices.\<close>

lemma upt_step: "Suc i < count \<Longrightarrow> [i..<count - Suc 0] = i # [Suc i..<count - Suc 0]"
  by (simp add: upt_conv_Cons)

lemma upt_stop: "\<not> i + 1 < count \<Longrightarrow> [i..<count - 1] = []"
  by simp

lemma filter_loop_fst:
  "fst (filter_loop pts simpMask k count i points m) =
     points @ map ((!) pts) (filter (\<lambda>j. pointScale simpMask j \<le> k) [i..<count - 1])"
proof (induction pts simpMask k count i points m rule: filter_loop.induct)
  case (1 pts simpMask scaleIndex count i points minScale)
  show ?case
  proof (cases "i + 1 < count")
    case True
    with 1 show ?thesis
      by (subst filter_loop.simps) (simp add: upt_step)
  next
    case False
    then show ?thesis
      by (subst filter_loop.simps) simp
  qed
qed

text \<open>When no point passes and one point is held, \<open>minScale\<close> is the running minimum.\<close>

lemma filter_loop_snd:
  "length points = 1 \<Longrightarrow>
   filter (\<lambda>j. pointScale simpMask j \<le> k) [i..<count - 1] = [] \<Longrightarrow>
   snd (filter_loop pts simpMask k count i points m) =
     fold (\<lambda>j a. min a (pointScale simpMask j)) [i..<count - 1] m"
proof (induction pts simpMask k count i points m rule: filter_loop.induct)
  case (1 pts simpMask scaleIndex count i points minScale)
  show ?case
  proof (cases "i + 1 < count")
    case True
    with "1.prems"(2) have np: "\<not> pointScale simpMask i \<le> scaleIndex"
      and rest: "filter (\<lambda>j. pointScale simpMask j \<le> scaleIndex) [i + 1..<count - 1] = []"
      by (auto simp: upt_step split: if_splits)
    show ?thesis
    proof (cases "minScale > pointScale simpMask i")
      case gt: True
      have "snd (filter_loop pts simpMask scaleIndex count (i + 1) points (pointScale simpMask i)) =
            fold (\<lambda>j a. min a (pointScale simpMask j)) [i + 1..<count - 1] (pointScale simpMask i)"
        using True np gt "1.prems"(1) rest by (intro "1.IH"(2)) auto
      with True np gt "1.prems"(1) show ?thesis
        by (subst filter_loop.simps) (simp add: upt_step min_def)
    next
      case ngt: False
      have "snd (filter_loop pts simpMask scaleIndex count (i + 1) points minScale) =
            fold (\<lambda>j a. min a (pointScale simpMask j)) [i + 1..<count - 1] minScale"
        using True np ngt "1.prems"(1) rest by (intro "1.IH"(3)) auto
      with True np ngt show ?thesis
        by (subst filter_loop.simps) (simp add: upt_step min_def)
    qed
  next
    case False
    then show ?thesis
      by (subst filter_loop.simps) simp
  qed
qed

lemma fallback_loop_eq:
  "fallback_loop pts simpMask m count i points =
     points @ map ((!) pts) (filter (\<lambda>j. pointScale simpMask j = m) [i..<count - 1])"
proof (induction pts simpMask m count i points rule: fallback_loop.induct)
  case (1 pts simpMask minScale count i points)
  show ?case
  proof (cases "i + 1 < count")
    case True
    with 1 show ?thesis
      by (subst fallback_loop.simps) (simp add: upt_step)
  next
    case False
    then show ?thesis
      by (subst fallback_loop.simps) simp
  qed
qed

lemma fold_min_le: "fold (\<lambda>j a. min a (g j)) xs (m::int) \<le> m"
proof (induction xs arbitrary: m)
  case Nil
  then show ?case by simp
next
  case (Cons x xs)
  have "fold (\<lambda>j a. min a (g j)) xs (min m (g x)) \<le> min m (g x)" by (rule Cons)
  then show ?case by simp
qed

lemma fold_min_le_elem: "j \<in> set xs \<Longrightarrow> fold (\<lambda>j a. min a (g j)) xs (m::int) \<le> g j"
proof (induction xs arbitrary: m)
  case Nil
  then show ?case by simp
next
  case (Cons x xs)
  show ?case
  proof (cases "j = x")
    case True
    have "fold (\<lambda>j a. min a (g j)) xs (min m (g x)) \<le> min m (g x)" by (rule fold_min_le)
    with True show ?thesis by simp
  next
    case False
    with Cons show ?thesis by simp
  qed
qed

lemma fold_min_in: "fold (\<lambda>j a. min a (g j)) xs (m::int) = m \<or> fold (\<lambda>j a. min a (g j)) xs m \<in> g ` set xs"
proof (induction xs arbitrary: m)
  case Nil
  then show ?case by simp
next
  case (Cons x xs)
  from Cons [of "min m (g x)"] show ?case
    by (auto simp: min_def split: if_splits)
qed

text \<open>The stages leave the buffer, the load info and the header byte as they were.\<close>

lemma ParseTypes_data:
  "ParseTypes ext f = Inr f' \<Longrightarrow>
   m_data f' = m_data f \<and> m_loadInfo f' = m_loadInfo f \<and> m_header f' = m_header f"
  by (auto simp: ParseTypes_def split: if_splits sum.splits prod.splits)

lemma ParseCommon_data:
  "ParseCommon ext f = Inr f' \<Longrightarrow>
   m_data f' = m_data f \<and> m_loadInfo f' = m_loadInfo f \<and> m_header f' = m_header f"
  by (auto simp: ParseCommon_def Let_def dest!: ParseTypes_data
      split: if_splits option.splits sum.splits)

lemma ParseHeader2_line_data:
  "ParseHeader2_line ext li f c m pos = Inr (f', pos') \<Longrightarrow>
   m_data f' = m_data f \<and> m_loadInfo f' = m_loadInfo f \<and> m_header f' = m_header f"
  by (auto simp: ParseHeader2_line_def Let_def split: if_splits sum.splits prod.splits)

lemma ParseHeader2_area_data:
  "ParseHeader2_area ext li f c m pos = Inr (f', pos') \<Longrightarrow>
   m_data f' = m_data f \<and> m_loadInfo f' = m_loadInfo f \<and> m_header f' = m_header f"
  by (auto simp: ParseHeader2_area_def Let_def split: if_splits sum.splits prod.splits)

lemma ParseHeader2_data:
  "ParseHeader2 ext f = Inr f' \<Longrightarrow>
   m_data f' = m_data f \<and> m_loadInfo f' = m_loadInfo f \<and> m_header f' = m_header f"
  by (auto simp: ParseHeader2_def Let_def
      dest!: ParseCommon_data ParseHeader2_line_data ParseHeader2_area_data
      split: if_splits option.splits sum.splits prod.splits)

lemma fold_min_eq_iff:
  assumes "j \<in> set xs"
  shows "(g j = fold (\<lambda>j a. min a (g j)) xs (m::int)) = (g j \<le> m \<and> (\<forall>i \<in> set xs. g j \<le> g i))"
proof
  assume eq: "g j = fold (\<lambda>j a. min a (g j)) xs m"
  have "fold (\<lambda>j a. min a (g j)) xs m \<le> m" by (rule fold_min_le)
  moreover have "\<forall>i \<in> set xs. fold (\<lambda>j a. min a (g j)) xs m \<le> g i"
    by (simp add: fold_min_le_elem)
  ultimately show "g j \<le> m \<and> (\<forall>i \<in> set xs. g j \<le> g i)" unfolding eq [symmetric] by simp
next
  assume least: "g j \<le> m \<and> (\<forall>i \<in> set xs. g j \<le> g i)"
  have le: "fold (\<lambda>j a. min a (g j)) xs m \<le> g j" using assms by (rule fold_min_le_elem)
  from fold_min_in [of g xs m] have "g j \<le> fold (\<lambda>j a. min a (g j)) xs m"
  proof
    assume "fold (\<lambda>j a. min a (g j)) xs m = m"
    with least show ?thesis by simp
  next
    assume "fold (\<lambda>j a. min a (g j)) xs m \<in> g ` set xs"
    then obtain i where "i \<in> set xs" "fold (\<lambda>j a. min a (g j)) xs m = g i" by blast
    with least show ?thesis by simp
  qed
  with le show "g j = fold (\<lambda>j a. min a (g j)) xs m" by simp
qed

text \<open>
  The inner branch in closed form. The fallback compares the markers with \<open>minScale\<close>,
  which starts from the scales count minus one and only goes down.
\<close>

lemma ParseGeometry_inner_eq:
  "ParseGeometry_inner li scale pts simpMask =
     (let mids = [1..<length pts - 1];
          kept = filter (\<lambda>j. pointScale simpMask j \<le> GetScaleIndex li scale) mids
      in pts ! 0 #
         map ((!) pts)
           (if kept = []
            then filter (\<lambda>j. pointScale simpMask j \<le> GetScalesCount li - 1 \<and>
                              (\<forall>i \<in> set mids. pointScale simpMask j \<le> pointScale simpMask i)) mids
            else kept) @
         [pts ! (length pts - 1)])"
proof -
  let ?mids = "[1..<length pts - 1]"
  let ?ps = "pointScale simpMask"
  let ?kept = "filter (\<lambda>j. ?ps j \<le> GetScaleIndex li scale) ?mids"
  let ?r = "filter_loop pts simpMask (GetScaleIndex li scale) (length pts) 1 [pts ! 0]
              (GetScalesCount li - 1)"
  have fst: "fst ?r = [pts ! 0] @ map ((!) pts) ?kept"
    by (rule filter_loop_fst)
  show ?thesis
  proof (cases "?kept = []")
    case True
    let ?m = "fold (\<lambda>j a. min a (?ps j)) ?mids (GetScalesCount li - 1)"
    from True have snd: "snd ?r = ?m"
      by (intro filter_loop_snd) simp_all
    have same: "filter (\<lambda>j. ?ps j = ?m) ?mids =
                filter (\<lambda>j. ?ps j \<le> GetScalesCount li - 1 \<and> (\<forall>i \<in> set ?mids. ?ps j \<le> ?ps i)) ?mids"
    proof (rule filter_cong [OF refl])
      fix j assume j: "j \<in> set ?mids"
      then show "(?ps j = ?m) =
                 (?ps j \<le> GetScalesCount li - 1 \<and> (\<forall>i \<in> set ?mids. ?ps j \<le> ?ps i))"
        by (rule fold_min_eq_iff)
    qed
    have "fallback_loop pts simpMask ?m (length pts) 1 (fst ?r) =
          fst ?r @ map ((!) pts) (filter (\<lambda>j. ?ps j = ?m) ?mids)"
      by (rule fallback_loop_eq)
    with True fst snd same show ?thesis
      by (simp add: ParseGeometry_inner_def Let_def)
  next
    case False
    with fst show ?thesis
      by (simp add: ParseGeometry_inner_def Let_def)
  qed
qed

text \<open>
  Claim C4, as the code has it. For a line whose header2 stage leaves at least two
  points (inner geometry), \<^verbatim>\<open>ParseGeometry\<close> returns and leaves the first point, then
  the intermediate points whose 2-bit marker is at most the scale index of the requested
  scale, in their order, then the last point. When no intermediate point passes, the
  intermediate points whose marker is the smallest among the intermediates are emitted
  instead if that marker is at most the scales count minus one, the value \<^verbatim>\<open>minScale\<close>
  starts from; if it is larger, the two end points are all that is emitted.
\<close>

theorem ParseGeometry_inner_line:
  assumes "\<not> m_parsed_m_points f"
    and "m_loadInfo f = Some li"
    and "Header (m_data f) = Inr h"
    and "h AND HEADER_MASK_GEOMTYPE ext = HeaderGeomType_Line ext"
    and "ParseHeader2 ext f = Inr fh"
    and "2 \<le> length (m_points fh)"
  shows "\<exists>g. ParseGeometry ext scale f = Inr (0, g) \<and>
             m_points g =
               (let pts = m_points fh;
                    mids = [1..<length pts - 1];
                    marker = pointScale (m_ptsSimpMask fh);
                    kept = filter (\<lambda>j. marker j \<le> GetScaleIndex li scale) mids
                in pts ! 0 #
                   map ((!) pts)
                     (if kept = []
                      then filter (\<lambda>j. marker j \<le> GetScalesCount li - 1 \<and>
                                        (\<forall>i \<in> set mids. marker j \<le> marker i)) mids
                      else kept) @
                   [pts ! (length pts - 1)])"
proof -
  from assms(5) have "m_data fh = m_data f" by (simp add: ParseHeader2_data)
  with assms(3) have hd: "Header (m_data fh) = Inr h" by simp
  have inner: "ParseGeometry_inner li scale (m_points fh) (m_ptsSimpMask fh) =
               (let pts = m_points fh;
                    mids = [1..<length pts - 1];
                    marker = pointScale (m_ptsSimpMask fh);
                    kept = filter (\<lambda>j. marker j \<le> GetScaleIndex li scale) mids
                in pts ! 0 #
                   map ((!) pts)
                     (if kept = []
                      then filter (\<lambda>j. marker j \<le> GetScalesCount li - 1 \<and>
                                        (\<forall>i \<in> set mids. marker j \<le> marker i)) mids
                      else kept) @
                   [pts ! (length pts - 1)])"
    by (simp add: ParseGeometry_inner_eq Let_def)
  from assms(1,2,4,5,6) hd
  have "ParseGeometry ext scale f =
        Inr (0, fh\<lparr>m_points := ParseGeometry_inner li scale (m_points fh) (m_ptsSimpMask fh),
                   m_limitRect := CalcRect ext
                     (ParseGeometry_inner li scale (m_points fh) (m_ptsSimpMask fh))
                     (m_limitRect fh),
                   m_parsed_m_points := True\<rparr>)"
    by (simp add: ParseGeometry_def)
  with inner show ?thesis by simp
qed

text \<open>
  Claim C4, witness: the five-point line with the markers 2, 1, 3. Scale 13 has index 2
  and keeps the points of markers 2 and 1; scale 9 has index 0, keeps none, and the
  point of the smallest marker is emitted.
\<close>

theorem ParseGeometry_inner_line_witness:
  "\<exists>g1 g2. ParseGeometry ex_ext 13 ex_inner = Inr (0, g1) \<and> m_points g1 = [10, 20, 30, 50] \<and>
           ParseGeometry ex_ext 9 ex_inner = Inr (0, g2) \<and> m_points g2 = [10, 30, 50]"
proof -
  have "case ParseHeader2 ex_ext ex_inner of
          Inl e \<Rightarrow> False
        | Inr fh \<Rightarrow> m_points fh = [10, 20, 30, 40, 50] \<and> m_ptsSimpMask fh = 54"
    by code_simp
  then obtain fh where fh: "ParseHeader2 ex_ext ex_inner = Inr fh"
    "m_points fh = [10, 20, 30, 40, 50]" "m_ptsSimpMask fh = 54"
    by (auto split: sum.splits)
  have a1: "\<not> m_parsed_m_points ex_inner" by (simp add: ex_inner_def ex_feature_def)
  have a2: "m_loadInfo ex_inner = Some ex_li" by (simp add: ex_inner_def ex_feature_def)
  have a3: "Header (m_data ex_inner) = Inr 0x11"
    by (simp add: ex_inner_def ex_feature_def Header_def)
  have a4: "0x11 AND HEADER_MASK_GEOMTYPE ex_ext = HeaderGeomType_Line ex_ext"
    by (simp add: ex_ext_def)
  have a6: "2 \<le> length (m_points fh)" using fh(2) by simp
  have v13: "(let pts = [10, 20, 30, 40, 50 :: int];
                    mids = [1..<length pts - 1];
                    marker = pointScale 54;
                    kept = filter (\<lambda>j. marker j \<le> GetScaleIndex ex_li 13) mids
                in pts ! 0 #
                   map ((!) pts)
                     (if kept = []
                      then filter (\<lambda>j. marker j \<le> GetScalesCount ex_li - 1 \<and>
                                        (\<forall>i \<in> set mids. marker j \<le> marker i)) mids
                      else kept) @
                   [pts ! (length pts - 1)]) = [10, 20, 30, 50]"
    by code_simp
  have v9: "(let pts = [10, 20, 30, 40, 50 :: int];
                    mids = [1..<length pts - 1];
                    marker = pointScale 54;
                    kept = filter (\<lambda>j. marker j \<le> GetScaleIndex ex_li 9) mids
                in pts ! 0 #
                   map ((!) pts)
                     (if kept = []
                      then filter (\<lambda>j. marker j \<le> GetScalesCount ex_li - 1 \<and>
                                        (\<forall>i \<in> set mids. marker j \<le> marker i)) mids
                      else kept) @
                   [pts ! (length pts - 1)]) = [10, 30, 50]"
    by code_simp
  from ParseGeometry_inner_line [OF a1 a2 a3 a4 fh(1) a6, of 13] fh(2,3) v13
  obtain g1 where g1: "ParseGeometry ex_ext 13 ex_inner = Inr (0, g1)"
    "m_points g1 = [10, 20, 30, 50]"
    by auto
  from ParseGeometry_inner_line [OF a1 a2 a3 a4 fh(1) a6, of 9] fh(2,3) v9
  obtain g2 where g2: "ParseGeometry ex_ext 9 ex_inner = Inr (0, g2)"
    "m_points g2 = [10, 30, 50]"
    by auto
  from g1 g2 show ?thesis by blast
qed

text \<open>
  Claim C4 as stated fails. In a container of two scales \<^verbatim>\<open>minScale\<close> starts from 1:
  the five-point line with the markers 3, 2, 3 at scale 9 (index 0) keeps no
  intermediate point, no marker is below 1, and the two end points are left, where the
  claim emits the point of the smallest marker 2 as well. And a line whose header2 count
  is 1 has its single point taken for the first point of an outer geometry: the lookup
  reads the empty offset table, and no geometry is produced.
\<close>

theorem ParseGeometry_inner_line_counterexample:
  "map_sum id (\<lambda>fh. (m_points fh, m_ptsSimpMask fh)) (ParseHeader2 ex_ext ex_inner2) =
     Inr ([10, 20, 30, 40, 50], 0x3B) \<and>
   map (pointScale 0x3B) [1, 2, 3] = [3, 2, 3] \<and>
   GetScaleIndex ex_li2 9 = 0 \<and>
   GetPoints_at ex_ext 9 ex_inner2 = Inr [10, 50] \<and>
   spec_inner_line (GetScaleIndex ex_li2 9) [10, 20, 30, 40, 50 :: int] 0x3B = [10, 30, 50] \<and>
   map_sum id m_points (ParseHeader2 ex_ext ex_inner_one) = Inr [10] \<and>
   GetPoints_at ex_ext 9 ex_inner_one = Inl OutOfRange"
proof -
  have 1: "map_sum id (\<lambda>fh. (m_points fh, m_ptsSimpMask fh)) (ParseHeader2 ex_ext ex_inner2) =
     Inr ([10, 20, 30, 40, 50], 0x3B)" by code_simp
  have 2: "map (pointScale 0x3B) [1, 2, 3] = [3, 2, 3]" by code_simp
  have 3: "GetScaleIndex ex_li2 9 = 0" by code_simp
  have 4: "GetPoints_at ex_ext 9 ex_inner2 = Inr [10, 50]" by code_simp
  have 5: "spec_inner_line (GetScaleIndex ex_li2 9) [10, 20, 30, 40, 50 :: int] 0x3B = [10, 30, 50]"
    by code_simp
  have 6: "map_sum id m_points (ParseHeader2 ex_ext ex_inner_one) = Inr [10]" by code_simp
  have 7: "GetPoints_at ex_ext 9 ex_inner_one = Inl OutOfRange" by code_simp
  from 1 2 3 4 5 6 7 show ?thesis by blast
qed

text \<open>The lookup with the sentinel \<^verbatim>\<open>WORST_GEOMETRY\<close>.\<close>

lemma GetScaleIndex_offsets_WORST:
  assumes "WORST_GEOMETRY \<le> GetLastScale li"
  shows "GetScaleIndex_offsets li WORST_GEOMETRY offs =
           Inr (if worst_loop offs 0 < int (length offs) then worst_loop offs 0 else -1)"
proof -
  have "0 \<le> worst_loop offs 0"
    using worst_loop_char [of 0 offs] by simp
  with assms show ?thesis
    unfolding GetScaleIndex_offsets_def clamp_min Let_def
    by (simp add: BEST_GEOMETRY_def WORST_GEOMETRY_def)
qed

lemma worst_loop_none:
  assumes "\<forall>j < length offs. offs ! j = kInvalidOffset"
  shows "worst_loop offs 0 = int (length offs)"
proof -
  have c: "0 \<le> worst_loop offs 0 \<and> worst_loop offs 0 \<le> int (length offs) \<and>
     (worst_loop offs 0 < int (length offs) \<longrightarrow>
        offs ! nat (worst_loop offs 0) \<noteq> kInvalidOffset) \<and>
     (\<forall>j. 0 \<le> j \<and> j < worst_loop offs 0 \<longrightarrow> offs ! nat j = kInvalidOffset)"
    by (rule worst_loop_char) simp_all
  show ?thesis
  proof (rule ccontr)
    assume "worst_loop offs 0 \<noteq> int (length offs)"
    with c have lt: "worst_loop offs 0 < int (length offs)" "0 \<le> worst_loop offs 0"
      and ne: "offs ! nat (worst_loop offs 0) \<noteq> kInvalidOffset" by auto
    from lt have "nat (worst_loop offs 0) < length offs" by auto
    with assms ne show False by blast
  qed
qed

lemma worst_loop_first:
  assumes "w < length offs" "offs ! w \<noteq> kInvalidOffset" "\<forall>j < w. offs ! j = kInvalidOffset"
  shows "worst_loop offs 0 = int w"
proof -
  have c: "0 \<le> worst_loop offs 0 \<and> worst_loop offs 0 \<le> int (length offs) \<and>
     (worst_loop offs 0 < int (length offs) \<longrightarrow>
        offs ! nat (worst_loop offs 0) \<noteq> kInvalidOffset) \<and>
     (\<forall>j. 0 \<le> j \<and> j < worst_loop offs 0 \<longrightarrow> offs ! nat j = kInvalidOffset)"
    by (rule worst_loop_char) simp_all
  let ?r = "worst_loop offs 0"
  from c have r0: "0 \<le> ?r" by simp
  have "\<not> int w < ?r"
  proof
    assume "int w < ?r"
    then have "0 \<le> int w \<and> int w < ?r" by simp
    with c have "offs ! nat (int w) = kInvalidOffset" by blast
    with assms(2) show False by simp
  qed
  moreover have "\<not> ?r < int w"
  proof
    assume lt: "?r < int w"
    with assms(1) c have "offs ! nat ?r \<noteq> kInvalidOffset" by auto
    moreover from lt r0 have "nat ?r < w" by auto
    ultimately show False using assms(3) by blast
  qed
  ultimately show ?thesis by simp
qed

text \<open>
  Claim C5, as the code has it. For a line whose header2 stage leaves the stored first
  point only (outer geometry), when the lookup for the requested scale finds nothing,
  the result of \<^verbatim>\<open>ParseGeometry\<close> is decided by the second lookup, with
  \<^verbatim>\<open>WORST_GEOMETRY\<close>: at an index \<open>w\<close> the geometry is the first point followed by the
  path decoded from the reader of index \<open>w\<close> at \<open>offsets[w]\<close>, with the coding params of
  \<open>w\<close> rebound to the first point; at "not found" the geometry stays the first point
  alone; and an out-of-range read of the second lookup ends the call. In a container
  whose last scale is not below the sentinel, the second lookup returns the lowest
  populated index of the offset table, whatever index was asked for, and "not found"
  when no offset is populated.
\<close>

theorem ParseGeometry_outer_fallback:
  assumes "\<not> m_parsed_m_points f"
    and "m_loadInfo f = Some li"
    and "Header (m_data f) = Inr h"
    and "h AND HEADER_MASK_GEOMTYPE ext = HeaderGeomType_Line ext"
    and "ParseHeader2 ext f = Inr fh"
    and "m_points fh = [p0]"
    and "GetScaleIndex_offsets li scale (m_offsets_m_pts fh) = Inr (-1)"
  shows "(\<forall>w. GetScaleIndex_offsets li WORST_GEOMETRY (m_offsets_m_pts fh) = Inr w \<and> w \<noteq> -1 \<longrightarrow>
            (\<exists>sz g. ParseGeometry ext scale f = Inr (sz, g) \<and>
                m_points g =
                  p0 # fst (LoadOuterPath ext (GetGeometryReader li w)
                              (unat (m_offsets_m_pts fh ! nat w))
                              (SetBasePoint ext (GetGeometryCodingParams li w) p0)))) \<and>
         (GetScaleIndex_offsets li WORST_GEOMETRY (m_offsets_m_pts fh) = Inr (-1) \<longrightarrow>
            (\<exists>g. ParseGeometry ext scale f = Inr (0, g) \<and> m_points g = [p0])) \<and>
         (\<forall>e. GetScaleIndex_offsets li WORST_GEOMETRY (m_offsets_m_pts fh) = Inl e \<longrightarrow>
            ParseGeometry ext scale f = Inl e) \<and>
         (WORST_GEOMETRY \<le> GetLastScale li \<longrightarrow>
            ((\<forall>j < length (m_offsets_m_pts fh). m_offsets_m_pts fh ! j = kInvalidOffset) \<longrightarrow>
               GetScaleIndex_offsets li WORST_GEOMETRY (m_offsets_m_pts fh) = Inr (-1) \<and>
               (\<exists>g. ParseGeometry ext scale f = Inr (0, g) \<and> m_points g = [p0])) \<and>
            (\<forall>w < length (m_offsets_m_pts fh).
               m_offsets_m_pts fh ! w \<noteq> kInvalidOffset \<and>
               (\<forall>j < w. m_offsets_m_pts fh ! j = kInvalidOffset) \<longrightarrow>
               GetScaleIndex_offsets li WORST_GEOMETRY (m_offsets_m_pts fh) = Inr (int w) \<and>
               (\<exists>sz g. ParseGeometry ext scale f = Inr (sz, g) \<and>
                   m_points g =
                     p0 # fst (LoadOuterPath ext (GetGeometryReader li (int w))
                                 (unat (m_offsets_m_pts fh ! w))
                                 (SetBasePoint ext (GetGeometryCodingParams li (int w)) p0)))))"
proof -
  let ?offs = "m_offsets_m_pts fh"
  let ?second = "GetScaleIndex_offsets li WORST_GEOMETRY ?offs"
  let ?path = "\<lambda>w. fst (LoadOuterPath ext (GetGeometryReader li w) (unat (?offs ! nat w))
                          (SetBasePoint ext (GetGeometryCodingParams li w) p0))"
  from assms(5) have "m_data fh = m_data f" by (simp add: ParseHeader2_data)
  with assms(3) have hd: "Header (m_data fh) = Inr h" by simp
  have pg: "ParseGeometry ext scale f =
     (case ParseGeometry_outer ext li scale fh of
        Inl e \<Rightarrow> Inl e
      | Inr (sz, f2) \<Rightarrow>
          Inr (sz, f2\<lparr>m_limitRect := CalcRect ext (m_points f2) (m_limitRect f2),
                     m_parsed_m_points := True\<rparr>))"
    using assms(1,2,4,5,6) hd by (simp add: ParseGeometry_def)
  have found: "\<exists>sz g. ParseGeometry ext scale f = Inr (sz, g) \<and> m_points g = p0 # ?path w"
    if "?second = Inr w" "w \<noteq> -1" for w
  proof -
    from that assms(6,7) have "ParseGeometry_outer ext li scale fh =
        Inr (CalcOffset (snd (LoadOuterPath ext (GetGeometryReader li w) (unat (?offs ! nat w))
                (SetBasePoint ext (GetGeometryCodingParams li w) p0))) - ?offs ! nat w,
             fh\<lparr>m_points := m_points fh @ ?path w\<rparr>)"
      by (simp add: ParseGeometry_outer_def Let_def)
    with pg assms(6) show ?thesis by simp
  qed
  have stays: "\<exists>g. ParseGeometry ext scale f = Inr (0, g) \<and> m_points g = [p0]"
    if "?second = Inr (-1)"
  proof -
    from that assms(7) have "ParseGeometry_outer ext li scale fh = Inr (0, fh)"
      by (simp add: ParseGeometry_outer_def)
    with pg assms(6) show ?thesis by simp
  qed
  have failed: "ParseGeometry ext scale f = Inl e" if "?second = Inl e" for e
  proof -
    from that assms(7) have "ParseGeometry_outer ext li scale fh = Inl e"
      by (simp add: ParseGeometry_outer_def)
    with pg show ?thesis by simp
  qed
  have none: "?second = Inr (-1)"
    if "WORST_GEOMETRY \<le> GetLastScale li" "\<forall>j < length ?offs. ?offs ! j = kInvalidOffset"
  proof -
    from that(2) have "worst_loop ?offs 0 = int (length ?offs)" by (rule worst_loop_none)
    with that(1) show ?thesis by (simp add: GetScaleIndex_offsets_WORST)
  qed
  have lowest: "?second = Inr (int w)"
    if "WORST_GEOMETRY \<le> GetLastScale li" "w < length ?offs"
      "?offs ! w \<noteq> kInvalidOffset \<and> (\<forall>j < w. ?offs ! j = kInvalidOffset)" for w
  proof -
    from that(2,3) have "worst_loop ?offs 0 = int w" by (intro worst_loop_first) auto
    with that(1,2) show ?thesis by (simp add: GetScaleIndex_offsets_WORST)
  qed
  have lowest_path: "\<exists>sz g. ParseGeometry ext scale f = Inr (sz, g) \<and>
      m_points g = p0 # fst (LoadOuterPath ext (GetGeometryReader li (int w)) (unat (?offs ! w))
                               (SetBasePoint ext (GetGeometryCodingParams li (int w)) p0))"
    if "WORST_GEOMETRY \<le> GetLastScale li" "w < length ?offs"
      "?offs ! w \<noteq> kInvalidOffset \<and> (\<forall>j < w. ?offs ! j = kInvalidOffset)" for w
  proof -
    have "?second = Inr (int w)" using that by (rule lowest)
    moreover have "int w \<noteq> -1" by simp
    ultimately have "\<exists>sz g. ParseGeometry ext scale f = Inr (sz, g) \<and>
        m_points g = p0 # ?path (int w)" by (rule found)
    then show ?thesis by simp
  qed
  show ?thesis
  proof (intro conjI allI impI)
    fix w assume "?second = Inr w \<and> w \<noteq> -1"
    then show "\<exists>sz g. ParseGeometry ext scale f = Inr (sz, g) \<and> m_points g = p0 # ?path w"
      using found by blast
  next
    assume "?second = Inr (-1)"
    then show "\<exists>g. ParseGeometry ext scale f = Inr (0, g) \<and> m_points g = [p0]"
      using stays by blast
  next
    fix e assume "?second = Inl e"
    then show "ParseGeometry ext scale f = Inl e" using failed by blast
  next
    assume "WORST_GEOMETRY \<le> GetLastScale li"
      "\<forall>j < length ?offs. ?offs ! j = kInvalidOffset"
    then show "?second = Inr (-1)" using none by blast
  next
    assume "WORST_GEOMETRY \<le> GetLastScale li"
      "\<forall>j < length ?offs. ?offs ! j = kInvalidOffset"
    then have "?second = Inr (-1)" using none by blast
    then show "\<exists>g. ParseGeometry ext scale f = Inr (0, g) \<and> m_points g = [p0]"
      using stays by blast
  next
    fix w
    assume "WORST_GEOMETRY \<le> GetLastScale li" "w < length ?offs"
      "?offs ! w \<noteq> kInvalidOffset \<and> (\<forall>j < w. ?offs ! j = kInvalidOffset)"
    then show "?second = Inr (int w)" using lowest by blast
  next
    fix w
    assume "WORST_GEOMETRY \<le> GetLastScale li" "w < length ?offs"
      "?offs ! w \<noteq> kInvalidOffset \<and> (\<forall>j < w. ?offs ! j = kInvalidOffset)"
    then show "\<exists>sz g. ParseGeometry ext scale f = Inr (sz, g) \<and>
      m_points g = p0 # fst (LoadOuterPath ext (GetGeometryReader li (int w)) (unat (?offs ! w))
                               (SetBasePoint ext (GetGeometryCodingParams li (int w)) p0))"
      using lowest_path by blast
  qed
qed

text \<open>
  Claim C5, witness: offsets at the indices 1 and 2 only. Scale 9 stops at index 0, finds
  nothing, and the geometry of index 1 is decoded; scale 17 stops at index 3, finds
  nothing, and the geometry of index 1 is decoded again; with no offset at all the first
  point stays alone.
\<close>

theorem ParseGeometry_outer_fallback_witness:
  "(\<exists>sz g. ParseGeometry ex_ext 9 ex_outer = Inr (sz, g) \<and> m_points g = [100, 101, 102, 103]) \<and>
   (\<exists>sz g. ParseGeometry ex_ext 17 ex_outer = Inr (sz, g) \<and> m_points g = [100, 101, 102, 103]) \<and>
   (\<exists>g. ParseGeometry ex_ext 9 ex_outer_none = Inr (0, g) \<and> m_points g = [100])"
proof -
  have "case ParseHeader2 ex_ext ex_outer of
          Inl e \<Rightarrow> False
        | Inr fh \<Rightarrow> m_points fh = [100] \<and>
                    m_offsets_m_pts fh = [kInvalidOffset, 0, 2, kInvalidOffset]"
    by code_simp
  then obtain fh where fh: "ParseHeader2 ex_ext ex_outer = Inr fh"
    "m_points fh = [100]" "m_offsets_m_pts fh = [kInvalidOffset, 0, 2, kInvalidOffset]"
    by (auto split: sum.splits)
  have a1: "\<not> m_parsed_m_points ex_outer" by (simp add: ex_outer_def ex_feature_def)
  have a2: "m_loadInfo ex_outer = Some ex_li" by (simp add: ex_outer_def ex_feature_def)
  have a3: "Header (m_data ex_outer) = Inr 0x11"
    by (simp add: ex_outer_def ex_feature_def Header_def)
  have a4: "0x11 AND HEADER_MASK_GEOMTYPE ex_ext = HeaderGeomType_Line ex_ext"
    by (simp add: ex_ext_def)
  have "GetScaleIndex_offsets ex_li 9 [kInvalidOffset, 0, 2, kInvalidOffset] = Inr (-1)"
    by code_simp
  with fh(3) have a7: "GetScaleIndex_offsets ex_li 9 (m_offsets_m_pts fh) = Inr (-1)" by simp
  have "GetScaleIndex_offsets ex_li 17 [kInvalidOffset, 0, 2, kInvalidOffset] = Inr (-1)"
    by code_simp
  with fh(3) have a7': "GetScaleIndex_offsets ex_li 17 (m_offsets_m_pts fh) = Inr (-1)" by simp
  have a8: "WORST_GEOMETRY \<le> GetLastScale ex_li"
    by (simp add: WORST_GEOMETRY_def ex_li_def)
  have w: "1 < length (m_offsets_m_pts fh)"
    "m_offsets_m_pts fh ! 1 \<noteq> kInvalidOffset \<and> (\<forall>j < 1. m_offsets_m_pts fh ! j = kInvalidOffset)"
    using fh(3) by (simp_all add: kInvalidOffset_def)
  have v: "100 # fst (LoadOuterPath ex_ext (GetGeometryReader ex_li (int 1))
                              (unat ([kInvalidOffset, 0, 2, kInvalidOffset] ! 1))
                              (SetBasePoint ex_ext (GetGeometryCodingParams ex_li (int 1)) 100))
           = [100, 101, 102, 103]"
    by code_simp
  from ParseGeometry_outer_fallback [OF a1 a2 a3 a4 fh(1) fh(2) a7] a8 w
  have "\<exists>sz g. ParseGeometry ex_ext 9 ex_outer = Inr (sz, g) \<and>
                m_points g =
                  100 # fst (LoadOuterPath ex_ext (GetGeometryReader ex_li (int 1))
                              (unat (m_offsets_m_pts fh ! 1))
                              (SetBasePoint ex_ext (GetGeometryCodingParams ex_li (int 1)) 100))"
    by blast
  with fh(3) v have c1: "\<exists>sz g. ParseGeometry ex_ext 9 ex_outer = Inr (sz, g) \<and>
      m_points g = [100, 101, 102, 103]"
    by simp
  from ParseGeometry_outer_fallback [OF a1 a2 a3 a4 fh(1) fh(2) a7'] a8 w
  have "\<exists>sz g. ParseGeometry ex_ext 17 ex_outer = Inr (sz, g) \<and>
                m_points g =
                  100 # fst (LoadOuterPath ex_ext (GetGeometryReader ex_li (int 1))
                              (unat (m_offsets_m_pts fh ! 1))
                              (SetBasePoint ex_ext (GetGeometryCodingParams ex_li (int 1)) 100))"
    by blast
  with fh(3) v have c1': "\<exists>sz g. ParseGeometry ex_ext 17 ex_outer = Inr (sz, g) \<and>
      m_points g = [100, 101, 102, 103]"
    by simp
  have "case ParseHeader2 ex_ext ex_outer_none of
          Inl e \<Rightarrow> False
        | Inr fh \<Rightarrow> m_points fh = [100] \<and>
                    m_offsets_m_pts fh = [kInvalidOffset, kInvalidOffset, kInvalidOffset, kInvalidOffset]"
    by code_simp
  then obtain fn where fn: "ParseHeader2 ex_ext ex_outer_none = Inr fn"
    "m_points fn = [100]"
    "m_offsets_m_pts fn = [kInvalidOffset, kInvalidOffset, kInvalidOffset, kInvalidOffset]"
    by (auto split: sum.splits)
  have b1: "\<not> m_parsed_m_points ex_outer_none" by (simp add: ex_outer_none_def ex_feature_def)
  have b2: "m_loadInfo ex_outer_none = Some ex_li" by (simp add: ex_outer_none_def ex_feature_def)
  have b3: "Header (m_data ex_outer_none) = Inr 0x11"
    by (simp add: ex_outer_none_def ex_feature_def Header_def)
  have "GetScaleIndex_offsets ex_li 9
          [kInvalidOffset, kInvalidOffset, kInvalidOffset, kInvalidOffset] = Inr (-1)"
    by code_simp
  with fn(3) have b7: "GetScaleIndex_offsets ex_li 9 (m_offsets_m_pts fn) = Inr (-1)" by simp
  have none: "\<forall>j < length (m_offsets_m_pts fn). m_offsets_m_pts fn ! j = kInvalidOffset"
    using fn(3) by (simp add: nth_Cons' )
  from ParseGeometry_outer_fallback [OF b1 b2 b3 a4 fn(1) fn(2) b7] a8 none
  have c2: "\<exists>g. ParseGeometry ex_ext 9 ex_outer_none = Inr (0, g) \<and> m_points g = [100]"
    by blast
  from c1 c1' c2 show ?thesis by blast
qed

text \<open>
  Claim C5 as stated fails in "that coarser index". With offsets at the indices 1 and 2
  only, scale 9 asks for index 0, the coarsest of the container, whose offset is absent;
  the retry returns index 1, of the finer scale 12, and its geometry is decoded.
\<close>

theorem ParseGeometry_outer_fallback_counterexample:
  "map_sum id (\<lambda>fh. (m_points fh, m_offsets_m_pts fh)) (ParseHeader2 ex_ext ex_outer) =
     Inr ([100], [kInvalidOffset, 0, 2, kInvalidOffset]) \<and>
   GetScaleIndex ex_li 9 = 0 \<and>
   GetScaleIndex_offsets ex_li 9 [kInvalidOffset, 0, 2, kInvalidOffset] = Inr (-1) \<and>
   GetScaleIndex_offsets ex_li WORST_GEOMETRY [kInvalidOffset, 0, 2, kInvalidOffset] = Inr 1 \<and>
   GetScale ex_li 0 = 10 \<and> GetScale ex_li 1 = 12 \<and>
   fst (LoadOuterPath ex_ext (GetGeometryReader ex_li 1) 0 (100 :: int)) = [101, 102, 103] \<and>
   GetPoints_at ex_ext 9 ex_outer = Inr [100, 101, 102, 103]"
proof -
  have 1: "map_sum id (\<lambda>fh. (m_points fh, m_offsets_m_pts fh)) (ParseHeader2 ex_ext ex_outer) =
     Inr ([100], [kInvalidOffset, 0, 2, kInvalidOffset])" by code_simp
  have 2: "GetScaleIndex ex_li 9 = 0" by code_simp
  have 3: "GetScaleIndex_offsets ex_li 9 [kInvalidOffset, 0, 2, kInvalidOffset] = Inr (-1)"
    by code_simp
  have 4: "GetScaleIndex_offsets ex_li WORST_GEOMETRY [kInvalidOffset, 0, 2, kInvalidOffset] = Inr 1"
    by code_simp
  have 5: "GetScale ex_li 0 = 10" "GetScale ex_li 1 = 12" by (simp_all add: ex_li_def)
  have 6: "fst (LoadOuterPath ex_ext (GetGeometryReader ex_li 1) 0 (100 :: int)) = [101, 102, 103]"
    by code_simp
  have 7: "GetPoints_at ex_ext 9 ex_outer = Inr [100, 101, 102, 103]" by code_simp
  from 1 2 3 4 5 6 7 show ?thesis by blast
qed

section \<open>Point counts across scales\<close>































section \<open>Read manager: the coverage update\<close>

text \<open>Sets as strictly increasing lists, by a key into a linear order.\<close>

lemma set_insert_set:
  "set (set_insert (\<lambda>a b. f a < f b) x xs) \<subseteq> insert x (set xs) \<and>
   set xs \<subseteq> set (set_insert (\<lambda>a b. f a < f b) x xs)"
  by (induction xs) auto

lemma set_insert_sorted:
  fixes f :: "'a \<Rightarrow> 'k::linorder"
  assumes "sorted_wrt (\<lambda>a b. f a < f b) xs"
  shows "sorted_wrt (\<lambda>a b. f a < f b) (set_insert (\<lambda>a b. f a < f b) x xs)"
  using assms
proof (induction xs)
  case Nil
  then show ?case by simp
next
  case (Cons y ys)
  have sub: "set (set_insert (\<lambda>a b. f a < f b) x ys) \<subseteq> insert x (set ys)"
    using set_insert_set [of f x ys] by simp
  show ?case
  proof (cases "f x < f y")
    case True
    with Cons.prems show ?thesis by (auto intro: less_trans)
  next
    case False
    show ?thesis
    proof (cases "f y < f x")
      case True
      with False Cons sub show ?thesis by auto
    next
      case False
      with \<open>\<not> f x < f y\<close> Cons.prems show ?thesis by simp
    qed
  qed
qed

lemma set_insert_new:
  fixes f :: "'a \<Rightarrow> 'k::linorder"
  assumes "f x \<notin> f ` set xs"
  shows "set (set_insert (\<lambda>a b. f a < f b) x xs) = insert x (set xs)"
  using assms by (induction xs) auto

lemma set_erase_filter:
  fixes f :: "'a \<Rightarrow> 'k::linorder"
  assumes "sorted_wrt (\<lambda>a b. f a < f b) xs"
  shows "set_erase (\<lambda>a b. f a < f b) x xs = filter (\<lambda>y. f y \<noteq> f x) xs"
  using assms
proof (induction xs)
  case Nil
  then show ?case by simp
next
  case (Cons y ys)
  show ?case
  proof (cases "f y = f x")
    case True
    with Cons.prems have "\<forall>z \<in> set ys. f z \<noteq> f x" by auto
    then have "filter (\<lambda>y. f y \<noteq> f x) ys = ys" by (simp add: filter_id_conv)
    with True show ?thesis by simp
  next
    case False
    with Cons show ?thesis by auto
  qed
qed

lemma set_difference_filter:
  fixes f :: "'a \<Rightarrow> 'k::linorder" and g :: "'b \<Rightarrow> 'k"
  assumes "sorted_wrt (\<lambda>a b. f a < f b) xs" "sorted_wrt (\<lambda>a b. g a < g b) ys"
  shows "set_difference (\<lambda>x y. f x < g y) (\<lambda>y x. g y < f x) xs ys =
         filter (\<lambda>x. f x \<notin> g ` set ys) xs"
  using assms
proof (induction "\<lambda>x y. f x < g y" "\<lambda>y x. g y < f x" xs ys rule: set_difference.induct)
  case (1 ys)
  then show ?case by simp
next
  case (2 x xs)
  then show ?case by simp
next
  case (3 x xs y ys)
  from "3.prems" have sx: "sorted_wrt (\<lambda>a b. f a < f b) xs" and sy: "sorted_wrt (\<lambda>a b. g a < g b) ys"
    and xlt: "\<forall>z \<in> set xs. f x < f z" and ylt: "\<forall>z \<in> set ys. g y < g z"
    by auto
  show ?case
  proof (cases "f x < g y")
    case True
    with ylt have "f x \<notin> g ` set (y # ys)" by (auto dest: less_trans)
    moreover from True 3 sx have "set_difference (\<lambda>x y. f x < g y) (\<lambda>y x. g y < f x) xs (y # ys) =
          filter (\<lambda>x. f x \<notin> g ` set (y # ys)) xs" by simp
    ultimately show ?thesis using True by simp
  next
    case False
    show ?thesis
    proof (cases "g y < f x")
      case True
      with xlt have "\<forall>z \<in> set (x # xs). f z \<noteq> g y" by (auto dest: less_trans)
      then have "filter (\<lambda>x. f x \<notin> g ` set (y # ys)) (x # xs) =
                 filter (\<lambda>x. f x \<notin> g ` set ys) (x # xs)"
        by (intro filter_cong) auto
      moreover from True False 3 sy have
        "set_difference (\<lambda>x y. f x < g y) (\<lambda>y x. g y < f x) (x # xs) ys =
          filter (\<lambda>x. f x \<notin> g ` set ys) (x # xs)" by simp
      ultimately show ?thesis using True False by simp
    next
      case nlt: False
      with False have eq: "f x = g y" by simp
      with xlt have "\<forall>z \<in> set xs. f z \<noteq> g y" by auto
      then have "filter (\<lambda>x. f x \<notin> g ` set (y # ys)) xs =
                 filter (\<lambda>x. f x \<notin> g ` set ys) xs"
        by (intro filter_cong) auto
      moreover from nlt False 3 sx sy have
        "set_difference (\<lambda>x y. f x < g y) (\<lambda>y x. g y < f x) xs ys =
          filter (\<lambda>x. f x \<notin> g ` set ys) xs" by simp
      ultimately show ?thesis using nlt False eq by simp
    qed
  qed
qed

lemma TileKey_ord_inj: "TileKey_ord a = TileKey_ord b \<longleftrightarrow> a = b"
  by (cases a; cases b) (auto simp: TileKey_ord_def)

lemma TileKey_less_eq: "TileKey_less = (\<lambda>a b. TileKey_ord a < TileKey_ord b)"
  by (intro ext) (simp add: TileKey_less_def)

lemma strict_keys_unique:
  assumes "sorted_wrt TileKey_less xs" "sorted_wrt TileKey_less ys" "set xs = set ys"
  shows "xs = ys"
proof -
  have "sorted_wrt (<) (map TileKey_ord xs)" "sorted_wrt (<) (map TileKey_ord ys)"
    using assms(1,2) by (simp_all add: sorted_wrt_map TileKey_less_eq)
  moreover have "set (map TileKey_ord xs) = set (map TileKey_ord ys)"
    using assms(3) by simp
  ultimately have "map TileKey_ord xs = map TileKey_ord ys"
    by (intro strict_sorted_equal)
  moreover have "inj TileKey_ord" by (rule injI) (simp add: TileKey_ord_inj)
  ultimately show ?thesis by (rule map_injective)
qed

text \<open>The loops of the update, one by one.\<close>

lemma LessByTileKey_eq:
  "LessByTileKey h = (\<lambda>a b. TileKey_ord (GetTileKey h a) < TileKey_ord (GetTileKey h b))"
  by (intro ext) (simp add: LessByTileKey_def TileKey_less_def)

lemma GetTileKey_Cancel: "GetTileKey (Cancel p h) = GetTileKey h"
proof
  fix q
  show "GetTileKey (Cancel p h) q = GetTileKey h q"
  proof (cases "q = p")
    case False
    then show ?thesis by (simp add: GetTileKey_def Cancel_def)
  next
    case True
    show ?thesis
    proof (cases "p < length h")
      case True
      with \<open>q = p\<close> show ?thesis by (simp add: GetTileKey_def Cancel_def)
    next
      case False
      then have "length h \<le> p" by simp
      then have "h[p := (h ! p)\<lparr>m_isCanceled := True\<rparr>] = h" by (rule list_update_beyond)
      then show ?thesis by (simp add: GetTileKey_def Cancel_def)
    qed
  qed
qed

lemma GetTileKey_fold_Cancel: "GetTileKey (fold Cancel ps h) = GetTileKey h"
  by (induction ps arbitrary: h) (simp_all add: GetTileKey_Cancel)

lemma length_fold_Cancel: "length (fold Cancel ps h) = length h"
  by (induction ps arbitrary: h) (simp_all add: Cancel_def)

lemma nth_fold_Cancel:
  "i < length h \<Longrightarrow>
   m_isCanceled (fold Cancel ps h ! i) = (m_isCanceled (h ! i) \<or> i \<in> set ps)"
proof (induction ps arbitrary: h)
  case Nil
  then show ?case by simp
next
  case (Cons p ps)
  have "i < length (Cancel p h)" using Cons.prems by (simp add: Cancel_def)
  then have "m_isCanceled (fold Cancel ps (Cancel p h) ! i) =
             (m_isCanceled (Cancel p h ! i) \<or> i \<in> set ps)" by (rule Cons.IH)
  moreover have "m_isCanceled (Cancel p h ! i) = (m_isCanceled (h ! i) \<or> i = p)"
    using Cons.prems by (cases "i = p") (simp_all add: Cancel_def)
  ultimately show ?case by auto
qed

lemma fold_CancelTileInfo:
  "fold CancelTileInfo ps m = m\<lparr>m_heap := fold Cancel ps (m_heap m)\<rparr>"
  by (induction ps arbitrary: m) (simp_all add: CancelTileInfo_def)

lemma fold_PushTaskFront: "fold PushTaskFront ps m = m\<lparr>m_pool := rev ps @ m_pool m\<rparr>"
  by (induction ps arbitrary: m) (simp_all add: PushTaskFront_def)

lemma fold_ClearTileInfo:
  assumes "sorted_wrt (LessByTileKey (m_heap m)) (m_tileInfos m)"
  shows "fold ClearTileInfo ps m =
         m\<lparr>m_heap := fold Cancel ps (m_heap m),
           m_tileInfos := filter (\<lambda>q. GetTileKey (m_heap m) q \<notin> GetTileKey (m_heap m) ` set ps)
                            (m_tileInfos m)\<rparr>"
  using assms
proof (induction ps arbitrary: m)
  case Nil
  then show ?case by simp
next
  case (Cons p ps)
  let ?h = "m_heap m"
  let ?f = "\<lambda>q. TileKey_ord (GetTileKey ?h q)"
  have s: "sorted_wrt (\<lambda>a b. ?f a < ?f b) (m_tileInfos m)"
    using Cons.prems by (simp add: LessByTileKey_eq)
  have er: "set_erase (LessByTileKey (Cancel p ?h)) p (m_tileInfos m) =
            filter (\<lambda>q. GetTileKey ?h q \<noteq> GetTileKey ?h p) (m_tileInfos m)"
    using set_erase_filter [OF s, of p]
    by (simp add: LessByTileKey_eq GetTileKey_Cancel TileKey_ord_inj)
  let ?m1 = "ClearTileInfo p m"
  have m1: "?m1 = m\<lparr>m_heap := Cancel p ?h,
                     m_tileInfos := filter (\<lambda>q. GetTileKey ?h q \<noteq> GetTileKey ?h p) (m_tileInfos m)\<rparr>"
    using er by (simp add: ClearTileInfo_def CancelTileInfo_def Let_def)
  have "sorted_wrt (LessByTileKey (m_heap ?m1)) (m_tileInfos ?m1)"
    using Cons.prems unfolding m1
    by (simp add: LessByTileKey_eq GetTileKey_Cancel sorted_wrt_filter)
  from Cons.IH [OF this]
  have "fold ClearTileInfo ps ?m1 =
        ?m1\<lparr>m_heap := fold Cancel ps (m_heap ?m1),
            m_tileInfos := filter (\<lambda>q. GetTileKey (m_heap ?m1) q \<notin> GetTileKey (m_heap ?m1) ` set ps)
                            (m_tileInfos ?m1)\<rparr>" .
  then have "fold ClearTileInfo ps ?m1 =
        m\<lparr>m_heap := fold Cancel ps (Cancel p ?h),
          m_tileInfos := filter (\<lambda>q. GetTileKey ?h q \<notin> GetTileKey ?h ` set ps)
                            (filter (\<lambda>q. GetTileKey ?h q \<noteq> GetTileKey ?h p) (m_tileInfos m))\<rparr>"
    unfolding m1 by (simp add: GetTileKey_Cancel)
  moreover have "filter (\<lambda>q. GetTileKey ?h q \<notin> GetTileKey ?h ` set ps)
                   (filter (\<lambda>q. GetTileKey ?h q \<noteq> GetTileKey ?h p) (m_tileInfos m)) =
                 filter (\<lambda>q. GetTileKey ?h q \<notin> GetTileKey ?h ` set (p # ps)) (m_tileInfos m)"
    by (simp add: conj_commute)
  ultimately show ?case by simp
qed

lemma sorted_wrt_cong_set:
  "(\<And>a b. a \<in> set xs \<Longrightarrow> b \<in> set xs \<Longrightarrow> P a b = Q a b) \<Longrightarrow>
   sorted_wrt P xs = sorted_wrt Q xs"
  by (induction xs) auto

lemma GetTileKey_append_old: "p < length h \<Longrightarrow> GetTileKey (h @ h') p = GetTileKey h p"
  by (simp add: GetTileKey_def nth_append)

lemma GetTileKey_append_new: "GetTileKey (h @ [t]) (length h) = m_key t"
  by (simp add: GetTileKey_def)

lemma PushTaskBackForTileKey_step:
  assumes valid: "\<forall>p \<in> set (m_tileInfos m). p < length (m_heap m)"
    and sorted: "sorted_wrt (LessByTileKey (m_heap m)) (m_tileInfos m)"
    and fresh: "k \<notin> GetTileKey (m_heap m) ` set (m_tileInfos m)"
  shows "m_heap (PushTaskBackForTileKey k m) = m_heap m @ [TileInfo_new k] \<and>
         m_pool (PushTaskBackForTileKey k m) = m_pool m @ [length (m_heap m)] \<and>
         set (m_tileInfos (PushTaskBackForTileKey k m)) =
           insert (length (m_heap m)) (set (m_tileInfos m)) \<and>
         sorted_wrt (LessByTileKey (m_heap (PushTaskBackForTileKey k m)))
           (m_tileInfos (PushTaskBackForTileKey k m)) \<and>
         m_currentViewport (PushTaskBackForTileKey k m) = m_currentViewport m"
proof -
  let ?h = "m_heap m" and ?n = "length (m_heap m)"
  let ?h1 = "?h @ [TileInfo_new k]"
  let ?f = "\<lambda>q. TileKey_ord (GetTileKey ?h1 q)"
  have old: "\<And>p. p \<in> set (m_tileInfos m) \<Longrightarrow> GetTileKey ?h1 p = GetTileKey ?h p"
    using valid by (simp add: GetTileKey_append_old)
  have new: "GetTileKey ?h1 ?n = k"
    by (simp add: GetTileKey_append_new TileInfo_new_def)
  have s1: "sorted_wrt (\<lambda>a b. ?f a < ?f b) (m_tileInfos m)"
  proof -
    have "sorted_wrt (\<lambda>a b. ?f a < ?f b) (m_tileInfos m) =
          sorted_wrt (LessByTileKey ?h) (m_tileInfos m)"
      unfolding LessByTileKey_eq by (rule sorted_wrt_cong_set) (simp add: old)
    with sorted show ?thesis by simp
  qed
  have fr: "?f ?n \<notin> ?f ` set (m_tileInfos m)"
  proof
    assume "?f ?n \<in> ?f ` set (m_tileInfos m)"
    then obtain p where p: "p \<in> set (m_tileInfos m)" "?f ?n = ?f p" by blast
    then have "k = GetTileKey ?h p" using new old by (simp add: TileKey_ord_inj)
    with p(1) fresh show False by blast
  qed
  have ins: "m_tileInfos (PushTaskBackForTileKey k m) =
             set_insert (\<lambda>a b. ?f a < ?f b) ?n (m_tileInfos m)"
    by (simp add: PushTaskBackForTileKey_def Let_def LessByTileKey_eq TileInfo_new_def)
  have hp: "m_heap (PushTaskBackForTileKey k m) = ?h1"
    by (simp add: PushTaskBackForTileKey_def Let_def TileInfo_new_def)
  have "sorted_wrt (LessByTileKey ?h1) (m_tileInfos (PushTaskBackForTileKey k m))"
    unfolding ins LessByTileKey_eq using s1 by (rule set_insert_sorted)
  moreover have "set (m_tileInfos (PushTaskBackForTileKey k m)) = insert ?n (set (m_tileInfos m))"
    unfolding ins using fr by (rule set_insert_new)
  moreover have "m_pool (PushTaskBackForTileKey k m) = m_pool m @ [?n]"
    "m_currentViewport (PushTaskBackForTileKey k m) = m_currentViewport m"
    by (simp_all add: PushTaskBackForTileKey_def Let_def)
  ultimately show ?thesis using hp by simp
qed

lemma fold_PushTaskBackForTileKey:
  assumes "\<forall>p \<in> set (m_tileInfos m). p < length (m_heap m)"
    and "sorted_wrt (LessByTileKey (m_heap m)) (m_tileInfos m)"
    and "distinct ks"
    and "set ks \<inter> GetTileKey (m_heap m) ` set (m_tileInfos m) = {}"
  shows "m_heap (fold PushTaskBackForTileKey ks m) = m_heap m @ map TileInfo_new ks \<and>
         m_pool (fold PushTaskBackForTileKey ks m) =
           m_pool m @ [length (m_heap m)..<length (m_heap m) + length ks] \<and>
         set (m_tileInfos (fold PushTaskBackForTileKey ks m)) =
           set (m_tileInfos m) \<union> {length (m_heap m)..<length (m_heap m) + length ks} \<and>
         sorted_wrt (LessByTileKey (m_heap (fold PushTaskBackForTileKey ks m)))
           (m_tileInfos (fold PushTaskBackForTileKey ks m)) \<and>
         m_currentViewport (fold PushTaskBackForTileKey ks m) = m_currentViewport m"
  using assms
proof (induction ks arbitrary: m)
  case Nil
  then show ?case by simp
next
  case (Cons k ks)
  let ?m1 = "PushTaskBackForTileKey k m"
  let ?n = "length (m_heap m)"
  from Cons.prems(4) have fresh: "k \<notin> GetTileKey (m_heap m) ` set (m_tileInfos m)" by auto
  note st = PushTaskBackForTileKey_step [OF Cons.prems(1,2) fresh]
  from st have h1: "m_heap ?m1 = m_heap m @ [TileInfo_new k]"
    and p1: "m_pool ?m1 = m_pool m @ [?n]"
    and t1: "set (m_tileInfos ?m1) = insert ?n (set (m_tileInfos m))"
    and s1: "sorted_wrt (LessByTileKey (m_heap ?m1)) (m_tileInfos ?m1)"
    and v1: "m_currentViewport ?m1 = m_currentViewport m"
    by blast+
  have valid1: "\<forall>p \<in> set (m_tileInfos ?m1). p < length (m_heap ?m1)"
    using Cons.prems(1) t1 h1 by auto
  have keys1: "GetTileKey (m_heap ?m1) ` set (m_tileInfos ?m1) =
               insert k (GetTileKey (m_heap m) ` set (m_tileInfos m))"
  proof -
    have "\<And>p. p \<in> set (m_tileInfos m) \<Longrightarrow> GetTileKey (m_heap ?m1) p = GetTileKey (m_heap m) p"
      using Cons.prems(1) h1 by (simp add: GetTileKey_append_old)
    moreover have "GetTileKey (m_heap ?m1) ?n = k"
      using h1 by (simp add: GetTileKey_append_new TileInfo_new_def)
    ultimately show ?thesis using t1 by auto
  qed
  have d1: "distinct ks" using Cons.prems(3) by simp
  have disj1: "set ks \<inter> GetTileKey (m_heap ?m1) ` set (m_tileInfos ?m1) = {}"
    using Cons.prems(3,4) keys1 by auto
  note ih = Cons.IH [OF valid1 s1 d1 disj1]
  have "?n < ?n + length (k # ks)" by simp
  then have "[?n..<?n + length (k # ks)] = ?n # [Suc ?n..<?n + length (k # ks)]"
    by (rule upt_conv_Cons)
  moreover have "?n + length (k # ks) = Suc ?n + length ks" by simp
  ultimately have upt: "[?n..<?n + length (k # ks)] = ?n # [Suc ?n..<Suc ?n + length ks]"
    by (simp only:)
  have setupt: "{?n..<?n + length (k # ks)} = insert ?n {Suc ?n..<Suc ?n + length ks}"
    by auto
  let ?m' = "fold PushTaskBackForTileKey ks ?m1"
  from ih have i1: "m_heap ?m' = m_heap ?m1 @ map TileInfo_new ks"
    and i2: "m_pool ?m' = m_pool ?m1 @ [length (m_heap ?m1)..<length (m_heap ?m1) + length ks]"
    and i3: "set (m_tileInfos ?m') =
             set (m_tileInfos ?m1) \<union> {length (m_heap ?m1)..<length (m_heap ?m1) + length ks}"
    and i4: "sorted_wrt (LessByTileKey (m_heap ?m')) (m_tileInfos ?m')"
    and i5: "m_currentViewport ?m' = m_currentViewport ?m1"
    by blast+
  have len1: "length (m_heap ?m1) = Suc ?n" using h1 by simp
  have e: "fold PushTaskBackForTileKey (k # ks) m = ?m'" by simp
  show ?case
    unfolding e
  proof (intro conjI)
    show "m_heap ?m' = m_heap m @ map TileInfo_new (k # ks)"
      using i1 h1 by simp
    show "m_pool ?m' = m_pool m @ [?n..<?n + length (k # ks)]"
      unfolding upt using i2 p1 len1 by simp
    show "set (m_tileInfos ?m') = set (m_tileInfos m) \<union> {?n..<?n + length (k # ks)}"
      unfolding setupt using i3 t1 len1 by simp
    show "sorted_wrt (LessByTileKey (m_heap ?m')) (m_tileInfos ?m')" by (rule i4)
    show "m_currentViewport ?m' = m_currentViewport m" using i5 v1 by simp
  qed
qed

lemma fold_set_insert_sorted:
  fixes f :: "'a \<Rightarrow> 'k::linorder"
  assumes "sorted_wrt (\<lambda>a b. f a < f b) out"
  shows "sorted_wrt (\<lambda>a b. f a < f b)
           (fold (\<lambda>x out. if P x out then set_insert (\<lambda>a b. f a < f b) (g x) out else out) xs out)"
  using assms by (induction xs arbitrary: out) (simp_all add: set_insert_sorted)

lemma GetTileKeys_sorted: "sorted_wrt TileKey_less (GetTileKeys env screen)"
proof -
  have inner: "\<And>P g xs out. sorted_wrt TileKey_less out \<Longrightarrow>
      sorted_wrt TileKey_less
        (fold (\<lambda>x out. if P x then set_insert TileKey_less (g x) out else out) xs out)"
    unfolding TileKey_less_eq by (rule fold_set_insert_sorted)
  have outer: "\<And>F ys out. (\<And>y out. sorted_wrt TileKey_less out \<Longrightarrow> sorted_wrt TileKey_less (F y out)) \<Longrightarrow>
      sorted_wrt TileKey_less out \<Longrightarrow> sorted_wrt TileKey_less (fold F ys out)"
  proof -
    fix F :: "'x \<Rightarrow> TileKey list \<Rightarrow> TileKey list" and ys out
    assume F: "\<And>y out. sorted_wrt TileKey_less out \<Longrightarrow> sorted_wrt TileKey_less (F y out)"
    show "sorted_wrt TileKey_less out \<Longrightarrow> sorted_wrt TileKey_less (fold F ys out)"
      by (induction ys arbitrary: out) (simp_all add: F)
  qed
  show ?thesis
    unfolding GetTileKeys_def Let_def
    by (rule outer) (simp_all add: inner)
qed

text \<open>The two set differences, and the two paths of the update.\<close>

lemma LiveTileSet_okD:
  assumes "LiveTileSet_ok m"
  shows "sorted_wrt (LessByTileKey (m_heap m)) (m_tileInfos m)"
    and "\<forall>p \<in> set (m_tileInfos m). p < length (m_heap m)"
    and "\<forall>p \<in> set (m_tileInfos m). \<not> m_isCanceled (m_heap m ! p)"
  using assms by (auto simp: LiveTileSet_ok_def list_all_iff)

lemma LessByTileKey_eq2:
  "LessByTileKey h = (\<lambda>a b. TileKey_less (GetTileKey h a) (GetTileKey h b))"
  by (intro ext) (simp add: LessByTileKey_def)

lemma live_keys_sorted:
  "sorted_wrt (LessByTileKey h) ps \<Longrightarrow> sorted_wrt TileKey_less (map (GetTileKey h) ps)"
  by (simp add: sorted_wrt_map LessByTileKey_eq2)

lemma TileKey_sorted_distinct: "sorted_wrt TileKey_less ks \<Longrightarrow> distinct ks"
proof -
  assume "sorted_wrt TileKey_less ks"
  then have "sorted_wrt (<) (map TileKey_ord ks)"
    by (simp add: sorted_wrt_map TileKey_less_eq)
  then have "distinct (map TileKey_ord ks)" by (simp add: strict_sorted_iff)
  then show "distinct ks" by (simp add: distinct_map)
qed

lemma outdated_filter:
  assumes "sorted_wrt (LessByTileKey h) ps" "sorted_wrt TileKey_less tiles"
  shows "set_difference (\<lambda>l r. TileKey_less (GetTileKey h l) r)
           (\<lambda>l r. TileKey_less l (GetTileKey h r)) ps tiles =
         filter (\<lambda>p. GetTileKey h p \<notin> set tiles) ps"
proof -
  let ?f = "\<lambda>p. TileKey_ord (GetTileKey h p)"
  have "set_difference (\<lambda>x y. ?f x < TileKey_ord y) (\<lambda>y x. TileKey_ord y < ?f x) ps tiles =
        filter (\<lambda>x. ?f x \<notin> TileKey_ord ` set tiles) ps"
    using assms by (intro set_difference_filter) (simp_all add: LessByTileKey_eq TileKey_less_eq)
  moreover have "\<And>x. (?f x \<notin> TileKey_ord ` set tiles) = (GetTileKey h x \<notin> set tiles)"
    by (auto simp: TileKey_ord_inj)
  ultimately show ?thesis by (simp add: TileKey_less_def)
qed

lemma incoming_filter:
  assumes "sorted_wrt (LessByTileKey h) ps" "sorted_wrt TileKey_less tiles"
  shows "set_difference (\<lambda>l r. TileKey_less l (GetTileKey h r))
           (\<lambda>l r. TileKey_less (GetTileKey h l) r) tiles ps =
         filter (\<lambda>k. k \<notin> GetTileKey h ` set ps) tiles"
proof -
  let ?g = "\<lambda>p. TileKey_ord (GetTileKey h p)"
  have "set_difference (\<lambda>x y. TileKey_ord x < ?g y) (\<lambda>y x. ?g y < TileKey_ord x) tiles ps =
        filter (\<lambda>x. TileKey_ord x \<notin> ?g ` set ps) tiles"
    using assms by (intro set_difference_filter) (simp_all add: LessByTileKey_eq TileKey_less_eq)
  moreover have "\<And>x. (TileKey_ord x \<notin> ?g ` set ps) = (x \<notin> GetTileKey h ` set ps)"
    by (auto simp: TileKey_ord_inj)
  ultimately show ?thesis by (simp add: TileKey_less_def)
qed

lemma UpdateCoverage_reset:
  fixes env :: "('s, 'a, 'd) ScreenEnv" and m :: "'s ReadManager" and v :: 's
    and d :: "DescriptorCall list"
  defines "n \<equiv> length (m_heap m)"
  defines "tiles \<equiv> GetTileKeys env v"
  defines "r \<equiv> UpdateCoverage env v d m"
  assumes "v \<noteq> m_currentViewport m" "MustDropAllTiles env m v"
  shows "m_heap (fst r) = fold Cancel (m_tileInfos m) (m_heap m) @ map TileInfo_new tiles"
    and "m_pool (fst r) = m_pool m @ [n..<n + length tiles]"
    and "set (m_tileInfos (fst r)) = {n..<n + length tiles}"
    and "sorted_wrt (LessByTileKey (m_heap (fst r))) (m_tileInfos (fst r))"
    and "snd r = d @ [DropAll]"
    and "m_currentViewport (fst r) = v"
proof -
  let ?m2 = "m\<lparr>m_heap := fold Cancel (m_tileInfos m) (m_heap m), m_tileInfos := []\<rparr>"
  let ?m3 = "fold PushTaskBackForTileKey tiles ?m2"
  have r: "r = (?m3\<lparr>m_currentViewport := v\<rparr>, d @ [DropAll])"
    using assms(4,5) unfolding r_def tiles_def
    by (simp add: UpdateCoverage_def Let_def fold_CancelTileInfo)
  have dist: "distinct tiles"
    unfolding tiles_def by (rule TileKey_sorted_distinct) (rule GetTileKeys_sorted)
  have e2: "\<forall>p \<in> set (m_tileInfos ?m2). p < length (m_heap ?m2)"
    "sorted_wrt (LessByTileKey (m_heap ?m2)) (m_tileInfos ?m2)"
    "set tiles \<inter> GetTileKey (m_heap ?m2) ` set (m_tileInfos ?m2) = {}"
    by simp_all
  note f = fold_PushTaskBackForTileKey [OF e2(1,2) dist e2(3)]
  have l2: "length (m_heap ?m2) = n" by (simp add: n_def length_fold_Cancel)
  from f have f1: "m_heap ?m3 = m_heap ?m2 @ map TileInfo_new tiles"
    and f2: "m_pool ?m3 = m_pool ?m2 @ [length (m_heap ?m2)..<length (m_heap ?m2) + length tiles]"
    and f3: "set (m_tileInfos ?m3) =
           set (m_tileInfos ?m2) \<union> {length (m_heap ?m2)..<length (m_heap ?m2) + length tiles}"
    and f4: "sorted_wrt (LessByTileKey (m_heap ?m3)) (m_tileInfos ?m3)"
    by blast+
  from f1 show "m_heap (fst r) = fold Cancel (m_tileInfos m) (m_heap m) @ map TileInfo_new tiles"
    unfolding r by simp
  from f2 show "m_pool (fst r) = m_pool m @ [n..<n + length tiles]"
    unfolding r l2 by simp
  from f3 show "set (m_tileInfos (fst r)) = {n..<n + length tiles}"
    unfolding r l2 by simp
  from f4 show "sorted_wrt (LessByTileKey (m_heap (fst r))) (m_tileInfos (fst r))"
    unfolding r by simp
  show "snd r = d @ [DropAll]" unfolding r by simp
  show "m_currentViewport (fst r) = v" unfolding r by simp
qed

lemma UpdateCoverage_incremental:
  fixes env :: "('s, 'a, 'd) ScreenEnv" and m :: "'s ReadManager" and v :: 's
    and d :: "DescriptorCall list"
  defines "n \<equiv> length (m_heap m)"
  defines "tiles \<equiv> GetTileKeys env v"
  defines "K \<equiv> GetTileKey (m_heap m)"
  defines "r \<equiv> UpdateCoverage env v d m"
  defines "outdated \<equiv> filter (\<lambda>p. K p \<notin> set tiles) (m_tileInfos m)"
  defines "survivors \<equiv> filter (\<lambda>p. K p \<in> set tiles) (m_tileInfos m)"
  defines "incoming \<equiv> filter (\<lambda>k. k \<notin> K ` set (m_tileInfos m)) tiles"
  assumes "LiveTileSet_ok m" "v \<noteq> m_currentViewport m" "\<not> MustDropAllTiles env m v"
  shows "m_heap (fst r) = fold Cancel outdated (m_heap m) @ map TileInfo_new incoming"
    and "m_pool (fst r) = rev survivors @ m_pool m @ [n..<n + length incoming]"
    and "set (m_tileInfos (fst r)) = set survivors \<union> {n..<n + length incoming}"
    and "sorted_wrt (LessByTileKey (m_heap (fst r))) (m_tileInfos (fst r))"
    and "snd r = d @ [DropTiles (map K outdated)]"
    and "m_currentViewport (fst r) = v"
proof -
  note ok = LiveTileSet_okD [OF assms(8)]
  have ts: "sorted_wrt TileKey_less tiles" unfolding tiles_def by (rule GetTileKeys_sorted)
  have od: "set_difference (\<lambda>l r. TileKey_less (GetTileKey (m_heap m) l) r)
           (\<lambda>l r. TileKey_less l (GetTileKey (m_heap m) r)) (m_tileInfos m) tiles = outdated"
    unfolding outdated_def K_def using ok(1) ts by (rule outdated_filter)
  have ic: "set_difference (\<lambda>l r. TileKey_less l (GetTileKey (m_heap m) r))
           (\<lambda>l r. TileKey_less (GetTileKey (m_heap m) l) r) tiles (m_tileInfos m) = incoming"
    unfolding incoming_def K_def using ok(1) ts by (rule incoming_filter)
  have surv: "filter (\<lambda>q. K q \<notin> K ` set outdated) (m_tileInfos m) = survivors"
    unfolding survivors_def outdated_def
    by (rule filter_cong [OF refl]) auto
  let ?h1 = "fold Cancel outdated (m_heap m)"
  let ?m1 = "m\<lparr>m_heap := ?h1, m_tileInfos := survivors\<rparr>"
  have m1: "fold ClearTileInfo outdated m = ?m1"
    using fold_ClearTileInfo [OF ok(1), of outdated] surv by (simp add: K_def)
  have k1: "GetTileKey ?h1 = K" unfolding K_def by (rule GetTileKey_fold_Cancel)
  let ?m2 = "?m1\<lparr>m_pool := rev survivors @ m_pool m\<rparr>"
  let ?m3 = "fold PushTaskBackForTileKey incoming ?m2"
  have r: "r = (?m3\<lparr>m_currentViewport := v\<rparr>, d @ [DropTiles (map K outdated)])"
    using assms(9,10) unfolding r_def
    by (simp add: UpdateCoverage_def Let_def tiles_def [symmetric] od ic m1 k1 fold_PushTaskFront)
  have v2: "\<forall>p \<in> set (m_tileInfos ?m2). p < length (m_heap ?m2)"
    using ok(2) by (simp add: survivors_def length_fold_Cancel)
  have s2: "sorted_wrt (LessByTileKey (m_heap ?m2)) (m_tileInfos ?m2)"
    using ok(1) by (simp add: LessByTileKey_eq k1 K_def [symmetric] survivors_def sorted_wrt_filter)
  have d2: "distinct incoming"
    unfolding incoming_def using TileKey_sorted_distinct [OF ts] by simp
  have j2: "set incoming \<inter> GetTileKey (m_heap ?m2) ` set (m_tileInfos ?m2) = {}"
    by (auto simp: k1 incoming_def survivors_def)
  note f = fold_PushTaskBackForTileKey [OF v2 s2 d2 j2]
  have l2: "length (m_heap ?m2) = n" by (simp add: n_def length_fold_Cancel)
  from f have f1: "m_heap ?m3 = m_heap ?m2 @ map TileInfo_new incoming"
    and f2: "m_pool ?m3 =
             m_pool ?m2 @ [length (m_heap ?m2)..<length (m_heap ?m2) + length incoming]"
    and f3: "set (m_tileInfos ?m3) =
           set (m_tileInfos ?m2) \<union> {length (m_heap ?m2)..<length (m_heap ?m2) + length incoming}"
    and f4: "sorted_wrt (LessByTileKey (m_heap ?m3)) (m_tileInfos ?m3)"
    by blast+
  from f1 show "m_heap (fst r) = fold Cancel outdated (m_heap m) @ map TileInfo_new incoming"
    unfolding r by simp
  from f2 show "m_pool (fst r) = rev survivors @ m_pool m @ [n..<n + length incoming]"
    unfolding r l2 by simp
  from f3 show "set (m_tileInfos (fst r)) = set survivors \<union> {n..<n + length incoming}"
    unfolding r l2 by simp
  from f4 show "sorted_wrt (LessByTileKey (m_heap (fst r))) (m_tileInfos (fst r))"
    unfolding r by simp
  show "snd r = d @ [DropTiles (map K outdated)]" unfolding r by simp
  show "m_currentViewport (fst r) = v" unfolding r by simp
qed

lemma new_key:
  "i < length ks \<Longrightarrow> GetTileKey (hc @ map TileInfo_new ks) (length hc + i) = ks ! i"
  by (simp add: GetTileKey_def nth_append TileInfo_new_def)

lemma new_flag:
  "i < length ks \<Longrightarrow> \<not> m_isCanceled ((hc @ map TileInfo_new ks) ! (length hc + i))"
  by (simp add: nth_append TileInfo_new_def)

lemma new_keys_map:
  "map (GetTileKey (hc @ map TileInfo_new ks)) [length hc..<length hc + length ks] = ks"
proof (rule nth_equalityI)
  show "length (map (GetTileKey (hc @ map TileInfo_new ks)) [length hc..<length hc + length ks]) =
        length ks" by simp
next
  fix i
  assume "i < length (map (GetTileKey (hc @ map TileInfo_new ks)) [length hc..<length hc + length ks])"
  then have i: "i < length ks" by simp
  then show "map (GetTileKey (hc @ map TileInfo_new ks)) [length hc..<length hc + length ks] ! i =
             ks ! i"
    by (simp add: new_key)
qed

lemma new_keys_set:
  "GetTileKey (hc @ map TileInfo_new ks) ` {length hc..<length hc + length ks} = set ks"
proof -
  have "GetTileKey (hc @ map TileInfo_new ks) ` set [length hc..<length hc + length ks] =
        set (map (GetTileKey (hc @ map TileInfo_new ks)) [length hc..<length hc + length ks])"
    by simp
  also have "\<dots> = set ks" by (simp only: new_keys_map)
  finally show ?thesis by simp
qed

text \<open>A processed update leaves exactly the tiles of the new viewport live.\<close>

lemma UpdateCoverage_processed:
  fixes env :: "('s, 'a, 'd) ScreenEnv" and m :: "'s ReadManager" and v :: 's
    and d :: "DescriptorCall list"
  assumes ok: "LiveTileSet_ok m" and ne: "v \<noteq> m_currentViewport m"
  shows "LiveTileKeys (fst (UpdateCoverage env v d m)) = GetTileKeys env v"
    and "LiveTileSet_ok (fst (UpdateCoverage env v d m))"
    and "m_currentViewport (fst (UpdateCoverage env v d m)) = v"
proof -
  let ?r = "UpdateCoverage env v d m"
  let ?m' = "fst ?r"
  let ?tiles = "GetTileKeys env v"
  let ?K = "GetTileKey (m_heap m)"
  let ?n = "length (m_heap m)"
  note okD = LiveTileSet_okD [OF ok]
  have ts: "sorted_wrt TileKey_less ?tiles" by (rule GetTileKeys_sorted)
  have main: "set (LiveTileKeys ?m') = set ?tiles \<and>
              sorted_wrt (LessByTileKey (m_heap ?m')) (m_tileInfos ?m') \<and>
              (\<forall>p \<in> set (m_tileInfos ?m'). p < length (m_heap ?m') \<and> \<not> m_isCanceled (m_heap ?m' ! p)) \<and>
              m_currentViewport ?m' = v"
  proof (cases "MustDropAllTiles env m v")
    case True
    note R = UpdateCoverage_reset [OF ne True, of d]
    let ?hc = "fold Cancel (m_tileInfos m) (m_heap m)"
    have lc: "length ?hc = ?n" by (rule length_fold_Cancel)
    have keys: "set (LiveTileKeys ?m') = set ?tiles"
      unfolding LiveTileKeys_def using R(1,3) new_keys_set [of ?hc ?tiles] lc by simp
    have "\<forall>p \<in> set (m_tileInfos ?m'). p < length (m_heap ?m') \<and> \<not> m_isCanceled (m_heap ?m' ! p)"
    proof
      fix p assume "p \<in> set (m_tileInfos ?m')"
      with R(3) have p: "?n \<le> p" "p < ?n + length ?tiles" by auto
      then obtain i where i: "p = length ?hc + i" "i < length ?tiles"
        using lc by (metis le_Suc_ex nat_add_left_cancel_less)
      with R(1) lc show "p < length (m_heap ?m') \<and> \<not> m_isCanceled (m_heap ?m' ! p)"
        using new_flag [of i ?tiles ?hc] by simp
    qed
    with keys R(4,6) show ?thesis by simp
  next
    case False
    note I = UpdateCoverage_incremental [OF ok ne False, of d]
    let ?outdated = "filter (\<lambda>p. ?K p \<notin> set ?tiles) (m_tileInfos m)"
    let ?survivors = "filter (\<lambda>p. ?K p \<in> set ?tiles) (m_tileInfos m)"
    let ?incoming = "filter (\<lambda>k. k \<notin> ?K ` set (m_tileInfos m)) ?tiles"
    let ?hc = "fold Cancel ?outdated (m_heap m)"
    have lc: "length ?hc = ?n" by (rule length_fold_Cancel)
    have kc: "GetTileKey ?hc = ?K" by (rule GetTileKey_fold_Cancel)
    have old: "\<And>p. p \<in> set ?survivors \<Longrightarrow> GetTileKey (m_heap ?m') p = ?K p"
    proof -
      fix p assume "p \<in> set ?survivors"
      with okD(2) have "p < length ?hc" using lc by simp
      then show "GetTileKey (m_heap ?m') p = ?K p"
        unfolding I(1) by (simp add: GetTileKey_append_old kc)
    qed
    have "GetTileKey (m_heap ?m') ` set (m_tileInfos ?m') =
          ?K ` set ?survivors \<union> set ?incoming"
      unfolding I(3) image_Un using old new_keys_set [of ?hc ?incoming] lc I(1) by simp
    also have "\<dots> = set ?tiles" by auto
    finally have keys: "set (LiveTileKeys ?m') = set ?tiles"
      by (simp add: LiveTileKeys_def)
    have "\<forall>p \<in> set (m_tileInfos ?m'). p < length (m_heap ?m') \<and> \<not> m_isCanceled (m_heap ?m' ! p)"
    proof
      fix p assume "p \<in> set (m_tileInfos ?m')"
      with I(3) consider "p \<in> set ?survivors" | "?n \<le> p \<and> p < ?n + length ?incoming" by auto
      then show "p < length (m_heap ?m') \<and> \<not> m_isCanceled (m_heap ?m' ! p)"
      proof cases
        case 1
        with okD(2,3) have p: "p < ?n" "\<not> m_isCanceled (m_heap m ! p)" "p \<notin> set ?outdated"
          by auto
        then have "\<not> m_isCanceled (?hc ! p)" by (simp add: nth_fold_Cancel)
        with p(1) lc show ?thesis unfolding I(1) by (simp add: nth_append)
      next
        case 2
        then obtain i where i: "p = length ?hc + i" "i < length ?incoming"
          using lc by (metis le_Suc_ex nat_add_left_cancel_less)
        with lc show ?thesis
          unfolding I(1) using new_flag [of i ?incoming ?hc] by simp
      qed
    qed
    with keys I(4,6) show ?thesis by simp
  qed
  from main have "sorted_wrt TileKey_less (LiveTileKeys ?m')"
    unfolding LiveTileKeys_def by (intro live_keys_sorted) simp
  with ts main show "LiveTileKeys ?m' = ?tiles"
    by (intro strict_keys_unique) simp_all
  from main show "LiveTileSet_ok ?m'"
    by (simp add: LiveTileSet_ok_def list_all_iff)
  from main show "m_currentViewport ?m' = v" by simp
qed

text \<open>The property of claim C6 holds of a new manager and is kept by every update.\<close>

lemma LiveTiles_in_viewport_init: "LiveTiles_in_viewport env (ReadManager_init env)"
  by (simp add: LiveTiles_in_viewport_def LiveTileSet_ok_def ReadManager_init_def
      LiveTileKeys_def)

lemma LiveTiles_in_viewport_step:
  assumes "LiveTiles_in_viewport env m"
  shows "LiveTiles_in_viewport env (fst (UpdateCoverage env v d m))"
proof (cases "v = m_currentViewport m")
  case True
  with assms show ?thesis by (simp add: UpdateCoverage_def)
next
  case False
  from assms have ok: "LiveTileSet_ok m" by (simp add: LiveTiles_in_viewport_def)
  note P = UpdateCoverage_processed [OF ok False, of env d]
  from P show ?thesis
    by (simp add: LiveTiles_in_viewport_def list_all_iff)
qed

lemma LiveTiles_in_viewport_updates:
  "LiveTiles_in_viewport env (fst md) \<Longrightarrow> LiveTiles_in_viewport env (fst (updates env vs md))"
  by (induction vs arbitrary: md) (simp_all add: LiveTiles_in_viewport_step)

lemma updates_snoc:
  "updates env (vs @ [v]) md =
   UpdateCoverage env v (snd (updates env vs md)) (fst (updates env vs md))"
  by (induction vs arbitrary: md) simp_all

lemma UpdateCoverage_viewport: "m_currentViewport (fst (UpdateCoverage env v d m)) = v"
proof (cases "v = m_currentViewport m")
  case True
  then show ?thesis by (simp add: UpdateCoverage_def)
next
  case False
  then show ?thesis
    by (simp add: UpdateCoverage_def Let_def)
qed

text \<open>The example run, evaluated once: the tiles of the three viewports and the two states.\<close>

lemma ex_tiles_V1: "GetTileKeys ex_env ex_V1 = [TileKey 0 0 10, TileKey 1 0 10]"
  by code_simp

lemma ex_tiles_V2: "GetTileKeys ex_env ex_V2 = [TileKey 1 0 10, TileKey 2 0 10]"
  by code_simp


lemma ex_r1_value:
  "ex_r1 = (\<lparr>m_currentViewport = ex_V1, m_tileInfos = [0, 1], m_pool = [0, 1],
             m_heap = [\<lparr>m_key = TileKey 0 0 10, m_isCanceled = False\<rparr>,
                       \<lparr>m_key = TileKey 1 0 10, m_isCanceled = False\<rparr>]\<rparr>, [DropAll])"
  by code_simp

lemma ex_r2_value:
  "ex_r2 = (\<lparr>m_currentViewport = ex_V2, m_tileInfos = [1, 2], m_pool = [1, 0, 1, 2],
             m_heap = [\<lparr>m_key = TileKey 0 0 10, m_isCanceled = True\<rparr>,
                       \<lparr>m_key = TileKey 1 0 10, m_isCanceled = False\<rparr>,
                       \<lparr>m_key = TileKey 2 0 10, m_isCanceled = False\<rparr>]\<rparr>,
            [DropAll, DropTiles [TileKey 0 0 10]])"
  unfolding ex_r2_def ex_r1_value by code_simp

text \<open>
  Claim C6. After any sequence of updates of a new manager that ends with the update to
  viewport \<open>V\<close>, every key of the live set is a tile enumerated for \<open>V\<close>; and when that
  last update is not the no-op (\<open>V\<close> differs from the viewport before it), on the reset
  path as on the incremental one, the keys of the live set are exactly the enumerated
  tiles.
\<close>

theorem UpdateCoverage_live_in_viewport:
  "set (LiveTileKeys (fst (updates env (vs @ [V]) (ReadManager_init env, d0))))
     \<subseteq> set (GetTileKeys env V) \<and>
   (V \<noteq> m_currentViewport (fst (updates env vs (ReadManager_init env, d0))) \<longrightarrow>
      LiveTileKeys (fst (updates env (vs @ [V]) (ReadManager_init env, d0))) = GetTileKeys env V)"
proof
  let ?m = "fst (updates env vs (ReadManager_init env, d0))"
  let ?d = "snd (updates env vs (ReadManager_init env, d0))"
  let ?m' = "fst (updates env (vs @ [V]) (ReadManager_init env, d0))"
  have m': "?m' = fst (UpdateCoverage env V ?d ?m)" by (simp add: updates_snoc)
  have inv: "LiveTiles_in_viewport env ?m"
    by (rule LiveTiles_in_viewport_updates) (simp add: LiveTiles_in_viewport_init)
  then have "LiveTiles_in_viewport env ?m'"
    unfolding m' by (rule LiveTiles_in_viewport_step)
  moreover have "m_currentViewport ?m' = V"
    unfolding m' by (rule UpdateCoverage_viewport)
  ultimately show "set (LiveTileKeys ?m') \<subseteq> set (GetTileKeys env V)"
    by (auto simp: LiveTiles_in_viewport_def list_all_iff)
  show "V \<noteq> m_currentViewport ?m \<longrightarrow> LiveTileKeys ?m' = GetTileKeys env V"
  proof
    assume ne: "V \<noteq> m_currentViewport ?m"
    from inv have ok: "LiveTileSet_ok ?m" by (simp add: LiveTiles_in_viewport_def)
    from UpdateCoverage_processed(1) [OF ok ne, of env ?d]
    show "LiveTileKeys ?m' = GetTileKeys env V" unfolding m' .
  qed
qed

text \<open>
  Claim C6, witness: a pan within zoom 10, where the live keys become the two tiles of
  the second viewport, and the same viewport once more.
\<close>

theorem UpdateCoverage_live_in_viewport_witness:
  "LiveTileKeys (fst (updates ex_env ([ex_V1] @ [ex_V2]) (ReadManager_init ex_env, []))) =
     [TileKey 1 0 10, TileKey 2 0 10] \<and>
   GetTileKeys ex_env ex_V2 = [TileKey 1 0 10, TileKey 2 0 10] \<and>
   set (LiveTileKeys (fst (updates ex_env ([ex_V1, ex_V2] @ [ex_V2]) (ReadManager_init ex_env, []))))
     \<subseteq> set (GetTileKeys ex_env ex_V2)"
proof -
  have "ex_V2 \<noteq> ex_V1" by code_simp
  then have ne: "ex_V2 \<noteq> m_currentViewport (fst (updates ex_env [ex_V1] (ReadManager_init ex_env, [])))"
    by (simp add: UpdateCoverage_viewport)
  have t: "GetTileKeys ex_env ex_V2 = [TileKey 1 0 10, TileKey 2 0 10]" by (rule ex_tiles_V2)
  from UpdateCoverage_live_in_viewport [of ex_env "[ex_V1]" ex_V2 "[]"] ne
  have "LiveTileKeys (fst (updates ex_env ([ex_V1] @ [ex_V2]) (ReadManager_init ex_env, []))) =
        GetTileKeys ex_env ex_V2" by blast
  then have 1: "LiveTileKeys (fst (updates ex_env ([ex_V1] @ [ex_V2]) (ReadManager_init ex_env, []))) =
     [TileKey 1 0 10, TileKey 2 0 10]" unfolding t .
  from UpdateCoverage_live_in_viewport [of ex_env "[ex_V1, ex_V2]" ex_V2 "[]"]
  have 2: "set (LiveTileKeys (fst (updates ex_env ([ex_V1, ex_V2] @ [ex_V2]) (ReadManager_init ex_env, []))))
     \<subseteq> set (GetTileKeys ex_env ex_V2)" by blast
  from 1 t 2 show ?thesis by blast
qed



text \<open>
  Claim C1, as the code has it. Let the update to \<open>V1\<close> be processed (\<open>V1\<close> differs from
  the viewport before) on a well-formed live set, and let the update to \<open>V2\<close> follow,
  with \<open>V2 \<noteq> V1\<close> and the full-reset predicate false. Then the live keys before the
  second update are the tiles of \<open>V1\<close>; the live tiles cancelled by it, and those removed
  from the live set, are exactly the ones whose key is a tile of \<open>V1\<close> and not of \<open>V2\<close>;
  the descriptor gets \<^verbatim>\<open>DropTiles\<close> with exactly these keys; every surviving tile gets a
  task at the front of the pool and is not cancelled; and one new \<^verbatim>\<open>TileInfo\<close>, live and
  not cancelled, is built and back-enqueued for exactly the tiles of \<open>V2\<close> that are not
  tiles of \<open>V1\<close>. An update to the current viewport, of any manager, returns the manager
  and the descriptor as they are. The live set is well formed in every state that
  updates reach from a new manager.
\<close>

theorem UpdateCoverage_diff:
  fixes env :: "('s, 'a, 'd) ScreenEnv" and m0 m :: "'s ReadManager" and V1 V2 :: 's
    and d0 d dd :: "DescriptorCall list" and vs :: "'s list"
  defines "r1 \<equiv> UpdateCoverage env V1 d0 m0"
  defines "r2 \<equiv> UpdateCoverage env V2 (snd r1) (fst r1)"
  shows "(LiveTileSet_ok m0 \<and> V1 \<noteq> m_currentViewport m0 \<and> V2 \<noteq> V1 \<and>
          \<not> MustDropAllTiles env (fst r1) V2 \<longrightarrow>
         LiveTileKeys (fst r1) = GetTileKeys env V1 \<and>
         {p \<in> set (m_tileInfos (fst r1)). m_isCanceled (m_heap (fst r2) ! p)} =
           {p \<in> set (m_tileInfos (fst r1)).
              GetTileKey (m_heap (fst r1)) p \<in> set (GetTileKeys env V1) - set (GetTileKeys env V2)} \<and>
         set (m_tileInfos (fst r1)) - set (m_tileInfos (fst r2)) =
           {p \<in> set (m_tileInfos (fst r1)).
              GetTileKey (m_heap (fst r1)) p \<in> set (GetTileKeys env V1) - set (GetTileKeys env V2)} \<and>
         snd r2 = snd r1 @ [DropTiles (filter (\<lambda>k. k \<notin> set (GetTileKeys env V2)) (GetTileKeys env V1))] \<and>
         m_pool (fst r2) =
           rev (filter (\<lambda>p. GetTileKey (m_heap (fst r1)) p \<in> set (GetTileKeys env V2))
                  (m_tileInfos (fst r1))) @
           m_pool (fst r1) @ [length (m_heap (fst r1))..<length (m_heap (fst r2))] \<and>
         map (GetTileKey (m_heap (fst r2))) [length (m_heap (fst r1))..<length (m_heap (fst r2))] =
           filter (\<lambda>k. k \<notin> set (GetTileKeys env V1)) (GetTileKeys env V2) \<and>
         (\<forall>p \<in> {length (m_heap (fst r1))..<length (m_heap (fst r2))}.
            p \<in> set (m_tileInfos (fst r2)) \<and> \<not> m_isCanceled (m_heap (fst r2) ! p)) \<and>
         LiveTileKeys (fst r2) = GetTileKeys env V2) \<and>
        UpdateCoverage env (m_currentViewport m) d m = (m, d) \<and>
        LiveTileSet_ok (fst (updates env vs (ReadManager_init env, dd)))"
proof (intro conjI)
  show "UpdateCoverage env (m_currentViewport m) d m = (m, d)"
    by (simp add: UpdateCoverage_def)
next
  have "LiveTiles_in_viewport env (fst (updates env vs (ReadManager_init env, dd)))"
    by (rule LiveTiles_in_viewport_updates) (simp add: LiveTiles_in_viewport_init)
  then show "LiveTileSet_ok (fst (updates env vs (ReadManager_init env, dd)))"
    by (simp add: LiveTiles_in_viewport_def)
next
  show "LiveTileSet_ok m0 \<and> V1 \<noteq> m_currentViewport m0 \<and> V2 \<noteq> V1 \<and>
          \<not> MustDropAllTiles env (fst r1) V2 \<longrightarrow>
         LiveTileKeys (fst r1) = GetTileKeys env V1 \<and>
         {p \<in> set (m_tileInfos (fst r1)). m_isCanceled (m_heap (fst r2) ! p)} =
           {p \<in> set (m_tileInfos (fst r1)).
              GetTileKey (m_heap (fst r1)) p \<in> set (GetTileKeys env V1) - set (GetTileKeys env V2)} \<and>
         set (m_tileInfos (fst r1)) - set (m_tileInfos (fst r2)) =
           {p \<in> set (m_tileInfos (fst r1)).
              GetTileKey (m_heap (fst r1)) p \<in> set (GetTileKeys env V1) - set (GetTileKeys env V2)} \<and>
         snd r2 = snd r1 @ [DropTiles (filter (\<lambda>k. k \<notin> set (GetTileKeys env V2)) (GetTileKeys env V1))] \<and>
         m_pool (fst r2) =
           rev (filter (\<lambda>p. GetTileKey (m_heap (fst r1)) p \<in> set (GetTileKeys env V2))
                  (m_tileInfos (fst r1))) @
           m_pool (fst r1) @ [length (m_heap (fst r1))..<length (m_heap (fst r2))] \<and>
         map (GetTileKey (m_heap (fst r2))) [length (m_heap (fst r1))..<length (m_heap (fst r2))] =
           filter (\<lambda>k. k \<notin> set (GetTileKeys env V1)) (GetTileKeys env V2) \<and>
         (\<forall>p \<in> {length (m_heap (fst r1))..<length (m_heap (fst r2))}.
            p \<in> set (m_tileInfos (fst r2)) \<and> \<not> m_isCanceled (m_heap (fst r2) ! p)) \<and>
         LiveTileKeys (fst r2) = GetTileKeys env V2"
  proof
  assume hyp: "LiveTileSet_ok m0 \<and> V1 \<noteq> m_currentViewport m0 \<and> V2 \<noteq> V1 \<and>
          \<not> MustDropAllTiles env (fst r1) V2"
  then have ok0: "LiveTileSet_ok m0" and ne1: "V1 \<noteq> m_currentViewport m0"
    and ne2: "V2 \<noteq> V1" and nr: "\<not> MustDropAllTiles env (fst r1) V2"
    by blast+
  let ?m1 = "fst r1" and ?m2 = "fst r2"
  let ?T1 = "GetTileKeys env V1" and ?T2 = "GetTileKeys env V2"
  let ?K = "GetTileKey (m_heap ?m1)"
  let ?n = "length (m_heap ?m1)"
  note P1 = UpdateCoverage_processed [OF ok0 ne1, of env d0, folded r1_def]
  have ne2': "V2 \<noteq> m_currentViewport ?m1" using ne2 P1(3) by simp
  note okD = LiveTileSet_okD [OF P1(2)]
  note I = UpdateCoverage_incremental [OF P1(2) ne2' nr, of "snd r1", folded r2_def]
  note P2 = UpdateCoverage_processed [OF P1(2) ne2', of env "snd r1", folded r2_def]
  let ?outdated = "filter (\<lambda>p. ?K p \<notin> set ?T2) (m_tileInfos ?m1)"
  let ?survivors = "filter (\<lambda>p. ?K p \<in> set ?T2) (m_tileInfos ?m1)"
  let ?incoming = "filter (\<lambda>k. k \<notin> ?K ` set (m_tileInfos ?m1)) ?T2"
  let ?hc = "fold Cancel ?outdated (m_heap ?m1)"
  have lc: "length ?hc = ?n" by (rule length_fold_Cancel)
  have keys1: "?K ` set (m_tileInfos ?m1) = set ?T1"
    using P1(1) by (simp add: LiveTileKeys_def [symmetric] flip: set_map)
  have inT1: "\<And>p. p \<in> set (m_tileInfos ?m1) \<Longrightarrow> ?K p \<in> set ?T1"
    using keys1 by blast
  have inc: "?incoming = filter (\<lambda>k. k \<notin> set ?T1) ?T2"
    unfolding keys1 ..
  have l2: "length (m_heap ?m2) = ?n + length ?incoming"
    unfolding I(1) using lc by simp
  have canc: "\<And>p. p \<in> set (m_tileInfos ?m1) \<Longrightarrow>
                m_isCanceled (m_heap ?m2 ! p) = (?K p \<notin> set ?T2)"
  proof -
    fix p assume p: "p \<in> set (m_tileInfos ?m1)"
    with okD(2,3) have "p < ?n" "\<not> m_isCanceled (m_heap ?m1 ! p)" by auto
    with p lc show "m_isCanceled (m_heap ?m2 ! p) = (?K p \<notin> set ?T2)"
      unfolding I(1) by (simp add: nth_append nth_fold_Cancel)
  qed
  have c1: "{p \<in> set (m_tileInfos ?m1). m_isCanceled (m_heap ?m2 ! p)} =
           {p \<in> set (m_tileInfos ?m1). ?K p \<in> set ?T1 - set ?T2}"
    using canc inT1 by auto
  have c2: "set (m_tileInfos ?m1) - set (m_tileInfos ?m2) =
           {p \<in> set (m_tileInfos ?m1). ?K p \<in> set ?T1 - set ?T2}"
  proof -
    have "\<And>p. p \<in> set (m_tileInfos ?m1) \<Longrightarrow> \<not> ?n \<le> p" using okD(2) by auto
    then show ?thesis unfolding I(3) using inT1 by auto
  qed
  have "map ?K ?outdated = filter (\<lambda>k. k \<notin> set ?T2) (map ?K (m_tileInfos ?m1))"
    by (simp add: filter_map comp_def)
  then have c3: "snd r2 = snd r1 @ [DropTiles (filter (\<lambda>k. k \<notin> set ?T2) ?T1)]"
    using I(5) P1(1) by (simp add: LiveTileKeys_def)
  have c4: "m_pool ?m2 = rev ?survivors @ m_pool ?m1 @ [?n..<length (m_heap ?m2)]"
    using I(2) l2 by simp
  have c5: "map (GetTileKey (m_heap ?m2)) [?n..<length (m_heap ?m2)] =
            filter (\<lambda>k. k \<notin> set ?T1) ?T2"
    unfolding l2 I(1) using new_keys_map [of ?hc ?incoming] lc inc by simp
  have c6: "\<forall>p \<in> {?n..<length (m_heap ?m2)}.
            p \<in> set (m_tileInfos ?m2) \<and> \<not> m_isCanceled (m_heap ?m2 ! p)"
  proof
    fix p assume "p \<in> {?n..<length (m_heap ?m2)}"
    then have p: "?n \<le> p" "p < ?n + length ?incoming" using l2 by auto
    then have "p \<in> set (m_tileInfos ?m2)" unfolding I(3) by simp
    moreover from LiveTileSet_okD(3) [OF P2(2)] this
    have "\<not> m_isCanceled (m_heap ?m2 ! p)" by blast
    ultimately show "p \<in> set (m_tileInfos ?m2) \<and> \<not> m_isCanceled (m_heap ?m2 ! p)" by simp
  qed
  from P1(1) c1 c2 c3 c4 c5 c6 P2(1)
  show "LiveTileKeys (fst r1) = GetTileKeys env V1 \<and>
         {p \<in> set (m_tileInfos (fst r1)). m_isCanceled (m_heap (fst r2) ! p)} =
           {p \<in> set (m_tileInfos (fst r1)).
              GetTileKey (m_heap (fst r1)) p \<in> set (GetTileKeys env V1) - set (GetTileKeys env V2)} \<and>
         set (m_tileInfos (fst r1)) - set (m_tileInfos (fst r2)) =
           {p \<in> set (m_tileInfos (fst r1)).
              GetTileKey (m_heap (fst r1)) p \<in> set (GetTileKeys env V1) - set (GetTileKeys env V2)} \<and>
         snd r2 = snd r1 @ [DropTiles (filter (\<lambda>k. k \<notin> set (GetTileKeys env V2)) (GetTileKeys env V1))] \<and>
         m_pool (fst r2) =
           rev (filter (\<lambda>p. GetTileKey (m_heap (fst r1)) p \<in> set (GetTileKeys env V2))
                  (m_tileInfos (fst r1))) @
           m_pool (fst r1) @ [length (m_heap (fst r1))..<length (m_heap (fst r2))] \<and>
         map (GetTileKey (m_heap (fst r2))) [length (m_heap (fst r1))..<length (m_heap (fst r2))] =
           filter (\<lambda>k. k \<notin> set (GetTileKeys env V1)) (GetTileKeys env V2) \<and>
         (\<forall>p \<in> {length (m_heap (fst r1))..<length (m_heap (fst r2))}.
            p \<in> set (m_tileInfos (fst r2)) \<and> \<not> m_isCanceled (m_heap (fst r2) ! p)) \<and>
         LiveTileKeys (fst r2) = GetTileKeys env V2"
    by blast
  qed
qed

text \<open>
  Claim C1, witness: the pan from the tiles \<open>(0,0), (1,0)\<close> to the tiles \<open>(1,0), (2,0)\<close> at
  zoom 10, and the same viewport once more, which changes nothing.
\<close>

theorem UpdateCoverage_diff_witness:
  "LiveTileKeys (fst ex_r1) = [TileKey 0 0 10, TileKey 1 0 10] \<and>
   m_tileInfos (fst ex_r1) = [0, 1] \<and>
   {p \<in> set (m_tileInfos (fst ex_r1)). m_isCanceled (m_heap (fst ex_r2) ! p)} = {0} \<and>
   set (m_tileInfos (fst ex_r1)) - set (m_tileInfos (fst ex_r2)) = {0} \<and>
   snd ex_r2 = [DropAll, DropTiles [TileKey 0 0 10]] \<and>
   m_pool (fst ex_r2) = [1, 0, 1, 2] \<and>
   map (GetTileKey (m_heap (fst ex_r2))) [2..<3] = [TileKey 2 0 10] \<and>
   LiveTileKeys (fst ex_r2) = [TileKey 1 0 10, TileKey 2 0 10] \<and>
   UpdateCoverage ex_env ex_V2 (snd ex_r2) (fst ex_r2) = ex_r2"
proof -
  have ok0: "LiveTileSet_ok (ReadManager_init ex_env)" by code_simp
  have ne1: "ex_V1 \<noteq> m_currentViewport (ReadManager_init ex_env)" by code_simp
  have ne2: "ex_V2 \<noteq> ex_V1" by code_simp
  have nr: "\<not> MustDropAllTiles ex_env (fst (UpdateCoverage ex_env ex_V1 [] (ReadManager_init ex_env))) ex_V2"
    unfolding ex_r1_def [symmetric] ex_r1_value by code_simp
  from ok0 ne1 ne2 nr
  have hyp: "LiveTileSet_ok (ReadManager_init ex_env) \<and>
      ex_V1 \<noteq> m_currentViewport (ReadManager_init ex_env) \<and> ex_V2 \<noteq> ex_V1 \<and>
      \<not> MustDropAllTiles ex_env (fst (UpdateCoverage ex_env ex_V1 [] (ReadManager_init ex_env))) ex_V2"
    by blast
  note T = UpdateCoverage_diff [THEN conjunct1, THEN mp, OF hyp, folded ex_r1_def, folded ex_r2_def]
  have t1: "GetTileKeys ex_env ex_V1 = [TileKey 0 0 10, TileKey 1 0 10]" by (rule ex_tiles_V1)
  have t2: "GetTileKeys ex_env ex_V2 = [TileKey 1 0 10, TileKey 2 0 10]" by (rule ex_tiles_V2)
  have l1: "m_tileInfos (fst ex_r1) = [0, 1]" by (simp add: ex_r1_value)
  have k0: "GetTileKey (m_heap (fst ex_r1)) 0 = TileKey 0 0 10"
    unfolding ex_r1_value by code_simp
  have k1: "GetTileKey (m_heap (fst ex_r1)) 1 = TileKey 1 0 10"
    unfolding ex_r1_value by code_simp
  have k1': "GetTileKey (m_heap (fst ex_r1)) (Suc 0) = TileKey 1 0 10" using k1 by simp
  have d1: "snd ex_r1 = [DropAll]" by (simp add: ex_r1_value)
  have p1: "m_pool (fst ex_r1) = [0, 1]" by (simp add: ex_r1_value)
  have h1: "length (m_heap (fst ex_r1)) = 2" by (simp add: ex_r1_value)
  have h2: "length (m_heap (fst ex_r2)) = 3" by (simp add: ex_r2_value)
  have sel: "{p \<in> set (m_tileInfos (fst ex_r1)).
              GetTileKey (m_heap (fst ex_r1)) p \<in>
                set (GetTileKeys ex_env ex_V1) - set (GetTileKeys ex_env ex_V2)} = {0}"
    unfolding l1 t1 t2 using k0 k1 k1' by auto
  from T have c1: "LiveTileKeys (fst ex_r1) = [TileKey 0 0 10, TileKey 1 0 10]"
    unfolding t1 by blast
  from T have c2: "{p \<in> set (m_tileInfos (fst ex_r1)). m_isCanceled (m_heap (fst ex_r2) ! p)} = {0}"
    unfolding sel by blast
  from T have c3: "set (m_tileInfos (fst ex_r1)) - set (m_tileInfos (fst ex_r2)) = {0}"
    unfolding sel by blast
  from T have "snd ex_r2 = snd ex_r1 @
      [DropTiles (filter (\<lambda>k. k \<notin> set (GetTileKeys ex_env ex_V2)) (GetTileKeys ex_env ex_V1))]"
    by blast
  then have c4: "snd ex_r2 = [DropAll, DropTiles [TileKey 0 0 10]]"
    unfolding t1 t2 d1 by simp
  from T have "m_pool (fst ex_r2) =
           rev (filter (\<lambda>p. GetTileKey (m_heap (fst ex_r1)) p \<in> set (GetTileKeys ex_env ex_V2))
                  (m_tileInfos (fst ex_r1))) @
           m_pool (fst ex_r1) @ [length (m_heap (fst ex_r1))..<length (m_heap (fst ex_r2))]"
    by blast
  then have c5: "m_pool (fst ex_r2) = [1, 0, 1, 2]"
    unfolding t2 l1 p1 h1 h2 using k0 k1 k1' by (simp add: upt_conv_Cons)
  from T have "map (GetTileKey (m_heap (fst ex_r2)))
                 [length (m_heap (fst ex_r1))..<length (m_heap (fst ex_r2))] =
           filter (\<lambda>k. k \<notin> set (GetTileKeys ex_env ex_V1)) (GetTileKeys ex_env ex_V2)"
    by blast
  then have c6: "map (GetTileKey (m_heap (fst ex_r2))) [2..<3] = [TileKey 2 0 10]"
    unfolding t1 t2 h1 h2 by simp
  from T have c7: "LiveTileKeys (fst ex_r2) = [TileKey 1 0 10, TileKey 2 0 10]"
    unfolding t2 by blast
  have cur: "m_currentViewport (fst ex_r2) = ex_V2"
    unfolding ex_r2_def by (rule UpdateCoverage_viewport)
  from UpdateCoverage_diff [THEN conjunct2, THEN conjunct1, of ex_env "fst ex_r2" "snd ex_r2"]
  have c8: "UpdateCoverage ex_env ex_V2 (snd ex_r2) (fst ex_r2) = ex_r2"
    unfolding cur by simp
  from c1 l1 c2 c3 c4 c5 c6 c7 c8 show ?thesis by blast
qed

text \<open>
  Claim C1 as stated fails for \<open>V2 = V1\<close>: the full-reset predicate is false, both tiles
  survive, and the update returns at once, so no surviving tile gets a task at the front
  of the pool.
\<close>

theorem UpdateCoverage_diff_counterexample:
  "\<not> MustDropAllTiles ex_env (fst ex_r1) ex_V1 \<and>
   LiveTileKeys (fst ex_r1) = [TileKey 0 0 10, TileKey 1 0 10] \<and>
   GetTileKeys ex_env ex_V1 = [TileKey 0 0 10, TileKey 1 0 10] \<and>
   m_pool (fst ex_r1) = [0, 1] \<and>
   UpdateCoverage ex_env ex_V1 (snd ex_r1) (fst ex_r1) = ex_r1"
proof -
  have 1: "\<not> MustDropAllTiles ex_env (fst ex_r1) ex_V1" unfolding ex_r1_value by code_simp
  have 2: "LiveTileKeys (fst ex_r1) = [TileKey 0 0 10, TileKey 1 0 10]"
    unfolding ex_r1_value by code_simp
  have 3: "GetTileKeys ex_env ex_V1 = [TileKey 0 0 10, TileKey 1 0 10]" by (rule ex_tiles_V1)
  have 4: "m_pool (fst ex_r1) = [0, 1]" by (simp add: ex_r1_value)
  have "m_currentViewport (fst ex_r1) = ex_V1"
    unfolding ex_r1_def by (rule UpdateCoverage_viewport)
  then have 5: "UpdateCoverage ex_env ex_V1 (snd ex_r1) (fst ex_r1) = ex_r1"
    by (simp add: UpdateCoverage_def)
  from 1 2 3 4 5 show ?thesis by blast
qed

end
